(* ===== verification/Prelude.thy ===== *)
theory Prelude
  imports Main "HOL-Library.Sublist" "HOL-Library.Word" "HOL-Library.Multiset"
begin

text \<open>
  Shared vocabulary of the pqueue development: the names of the model's types
  (file names, paths as lists of components, byte strings), the collections of
  rewrite rules the component theories fill, and generic facts on association
  lists and path prefixes that the filesystem model and the queue proofs use.
\<close>

section \<open>Types of the model\<close>

text \<open>
  A file name is a Go string, a list of bytes; the model uses HOL's \<open>string\<close>
  (a list of 8-bit characters). A path is the list of its components: the Go
  code builds every path with \<open>path.Join\<close> from a base directory and names read
  from directory listings, so \<open>path.Join(d, n)\<close> is \<open>d @ [n]\<close>. Property values
  are Go \<open>[]byte\<close>, lists of 8-bit words.
\<close>

type_synonym name = string
type_synonym path = "name list"
type_synonym byte = "8 word"
type_synonym bytes = "byte list"

named_theorems fs_simps \<open>rewrite rules that evaluate filesystem operations\<close>
named_theorems wf_intros \<open>preservation rules for well-formedness of the filesystem\<close>

section \<open>Re-rooting a path\<close>

text \<open>\<open>rebase a b p\<close> is the path \<open>p\<close>, which lies under \<open>a\<close>, seen under \<open>b\<close> instead.\<close>

definition rebase :: "path \<Rightarrow> path \<Rightarrow> path \<Rightarrow> path" where
  "rebase a b p = b @ drop (length a) p"

section \<open>Association lists filtered and moved by key\<close>

text \<open>
  The filesystem is an association list from paths to nodes. Removing a subtree
  filters it by key, and a rename re-bases the keys of a subtree. These two
  lemmas describe the lookups in the results.
\<close>

lemma map_of_filter_key [simp]:
  "map_of (filter (\<lambda>x. P (fst x)) xs) k = (if P k then map_of xs k else None)"
  by (induction xs) auto

lemma rebase_eq_iff:
  assumes "prefix a p"
  shows "rebase a b p = k \<longleftrightarrow> prefix b k \<and> p = a @ drop (length b) k"
  using assms by (auto simp: rebase_def prefix_def)

lemma rebase_prefix [simp]: "prefix b (rebase a b p)"
  by (simp add: rebase_def)

lemma rebase_append [simp]: "rebase a b (a @ r) = b @ r"
  by (simp add: rebase_def)

lemma map_of_rebase:
  "map_of (map (\<lambda>(p, n). (rebase a b p, n)) (filter (\<lambda>x. prefix a (fst x)) xs)) k =
     (if prefix b k then map_of xs (a @ drop (length b) k) else None)"
proof (induction xs)
  case Nil
  then show ?case by simp
next
  case (Cons x xs)
  obtain p n where x: "x = (p, n)" by (cases x)
  show ?case
  proof (cases "prefix a p")
    case True
    then have "rebase a b p = k \<longleftrightarrow> prefix b k \<and> p = a @ drop (length b) k"
      by (rule rebase_eq_iff)
    with Cons.IH True x show ?thesis by auto
  next
    case False
    have "prefix b k \<Longrightarrow> p \<noteq> a @ drop (length b) k"
      using False by auto
    with Cons.IH False x show ?thesis by auto
  qed
qed

lemma rebase_inj_on: "inj_on (rebase a b) {p. prefix a p}"
  by (auto simp: inj_on_def rebase_def prefix_def)

lemma map_fst_rebase:
  "map fst (map (\<lambda>(p, n). (rebase a b p, n)) (filter (\<lambda>x. prefix a (fst x)) xs)) =
     map (rebase a b) (filter (prefix a) (map fst xs))"
  by (induction xs) auto

lemma distinct_rebase:
  assumes "distinct (map fst xs)"
  shows "distinct (map fst (map (\<lambda>(p, n). (rebase a b p, n)) (filter (\<lambda>x. prefix a (fst x)) xs)))"
proof -
  have "inj_on (rebase a b) (set (filter (prefix a) (map fst xs)))"
    by (rule inj_on_subset [OF rebase_inj_on]) auto
  moreover have "distinct (filter (prefix a) (map fst xs))"
    using assms by simp
  ultimately show ?thesis
    unfolding map_fst_rebase distinct_map by blast
qed

lemma map_of_replace_key [simp]:
  "map_of (map (\<lambda>x. if fst x = k then (k, v) else x) xs) k' =
     (if k' = k \<and> map_of xs k \<noteq> None then Some v else map_of xs k')"
  by (induction xs) auto

lemma map_fst_replace_key [simp]:
  "map (fst \<circ> (\<lambda>x. if fst x = k then (k, v) else x)) xs = map fst xs"
  by (induction xs) auto

section \<open>Path prefixes\<close>

lemma prefix_snoc_butlast: "p \<noteq> [] \<Longrightarrow> prefix q (butlast p) \<Longrightarrow> prefix q p"
  using prefix_order.trans prefixeq_butlast by blast

text \<open>Paths below two parallel directories (neither a prefix of the other) never nest.\<close>

lemma parallel_no_prefix: "d \<parallel> e \<Longrightarrow> \<not> prefix (d @ xs) (e @ ys)"
  by (metis append_prefixD parallelE prefix_order.order_refl prefix_same_cases)

end
