(* ===== verification/FileSystem.thy ===== *)
theory FileSystem
  imports Prelude
begin

text \<open>
  The filesystem substrate the queue is built on (spec section 6): the Unix
  system calls and Go library routines that \<open>src/pqueue/pqueue.go\<close> calls, as
  functions on an explicit filesystem state. None of this code is in the
  repository; it is modelled from the spec and from the documented behaviour
  of Linux and of the Go standard library (\<open>os\<close>, \<open>io/ioutil\<close>, Go 1.17 or later).

  The state is an association list from paths to nodes, in creation order, so
  that a directory listing comes out in the order the entries were made, as a
  real directory's order is an artefact of its history. Every call is atomic:
  it either fails with an \<open>errno\<close> and leaves the state as it was, or returns
  the new state. Permission and device failures (\<open>EACCES\<close>, \<open>EIO\<close>,
  \<open>ENOSPC\<close>) are not modelled: every error of the model is determined by the
  shape of the tree.
\<close>

section \<open>Errors\<close>

datatype errno =
    ENOENT | EEXIST | ENOTEMPTY | ENOTDIR | EISDIR | EINVAL | EBUSY | ESRCH | EPERM
  | ErrPatternHasSeparator

text \<open>\<open>os.IsNotExist\<close> and \<open>os.IsExist\<close> classify errors as the Go library does.\<close>

definition IsNotExist :: "errno \<Rightarrow> bool" where
  "IsNotExist e \<longleftrightarrow> e = ENOENT"

definition IsExist :: "errno \<Rightarrow> bool" where
  "IsExist e \<longleftrightarrow> e = EEXIST \<or> e = ENOTEMPTY"

section \<open>State\<close>

datatype node = File bytes | Dir

type_synonym fs = "(path \<times> node) list"

definition fs_lookup :: "fs \<Rightarrow> path \<Rightarrow> node option" where
  "fs_lookup fs p = map_of fs p"

definition is_child :: "path \<Rightarrow> path \<Rightarrow> bool" where
  "is_child d p \<longleftrightarrow> p \<noteq> [] \<and> butlast p = d"

text \<open>The names in directory \<open>d\<close>, in the order their entries were made.\<close>

definition children :: "fs \<Rightarrow> path \<Rightarrow> name list" where
  "children fs d = map (\<lambda>x. last (fst x)) (filter (\<lambda>x. is_child d (fst x)) fs)"

text \<open>
  A well-formed tree: one node per path, the root a directory, and the parent
  of every other node a directory.
\<close>

definition fs_wf :: "fs \<Rightarrow> bool" where
  "fs_wf fs \<longleftrightarrow> distinct (map fst fs) \<and> fs_lookup fs [] = Some Dir \<and>
     list_all (\<lambda>p. p = [] \<or> fs_lookup fs (butlast p) = Some Dir) (map fst fs)"

section \<open>Path resolution\<close>

text \<open>
  The kernel resolves every directory on the way to the last component:
  a missing one is \<open>ENOENT\<close>, a plain file \<open>ENOTDIR\<close>.
\<close>

fun walk :: "fs \<Rightarrow> path \<Rightarrow> name list \<Rightarrow> errno option" where
  "walk fs cur [] = None"
| "walk fs cur (c # cs) =
     (case fs_lookup fs cur of
        None \<Rightarrow> Some ENOENT
      | Some (File _) \<Rightarrow> Some ENOTDIR
      | Some Dir \<Rightarrow> walk fs (cur @ [c]) cs)"

text \<open>\<open>lstat(2)\<close>, and \<open>os.Lstat\<close>, \<open>os.Stat\<close> and \<open>os.Open\<close> (no symbolic links).\<close>

definition lstat :: "fs \<Rightarrow> path \<Rightarrow> errno + node" where
  "lstat fs p =
     (case walk fs [] p of
        Some e \<Rightarrow> Inl e
      | None \<Rightarrow> (case fs_lookup fs p of None \<Rightarrow> Inl ENOENT | Some n \<Rightarrow> Inr n))"

section \<open>System calls\<close>

text \<open>\<open>mkdir(2)\<close>, as \<open>os.Mkdir\<close> calls it.\<close>

definition mkdir :: "fs \<Rightarrow> path \<Rightarrow> errno + fs" where
  "mkdir fs p =
     (case walk fs [] p of
        Some e \<Rightarrow> Inl e
      | None \<Rightarrow> if fs_lookup fs p \<noteq> None then Inl EEXIST else Inr (fs @ [(p, Dir)]))"

text \<open>\<open>open(2)\<close> with \<open>O_CREAT|O_EXCL\<close>: a new empty file, or \<open>EEXIST\<close>.\<close>

definition create_excl :: "fs \<Rightarrow> path \<Rightarrow> errno + fs" where
  "create_excl fs p =
     (case walk fs [] p of
        Some e \<Rightarrow> Inl e
      | None \<Rightarrow> if fs_lookup fs p \<noteq> None then Inl EEXIST else Inr (fs @ [(p, File [])]))"

text \<open>\<open>write(2)\<close> through a handle opened at the start of the file: the data is
  appended at the handle's offset, which is the file's end for a file written
  only through this handle.\<close>

definition write_file :: "fs \<Rightarrow> path \<Rightarrow> bytes \<Rightarrow> errno + fs" where
  "write_file fs p data =
     (case fs_lookup fs p of
        None \<Rightarrow> Inl ENOENT
      | Some Dir \<Rightarrow> Inl EISDIR
      | Some (File c) \<Rightarrow> Inr (map (\<lambda>x. if fst x = p then (p, File (c @ data)) else x) fs))"

text \<open>\<open>ioutil.ReadFile\<close>: reading a directory fails with \<open>EISDIR\<close>.\<close>

definition read_file :: "fs \<Rightarrow> path \<Rightarrow> errno + bytes" where
  "read_file fs p =
     (case lstat fs p of
        Inl e \<Rightarrow> Inl e
      | Inr Dir \<Rightarrow> Inl EISDIR
      | Inr (File c) \<Rightarrow> Inr c)"

text \<open>\<open>os.Remove\<close>: \<open>unlink(2)\<close> for a file, \<open>rmdir(2)\<close> for an empty directory.\<close>

definition remove :: "fs \<Rightarrow> path \<Rightarrow> errno + fs" where
  "remove fs p =
     (case lstat fs p of
        Inl e \<Rightarrow> Inl e
      | Inr (File _) \<Rightarrow> Inr (filter (\<lambda>x. fst x \<noteq> p) fs)
      | Inr Dir \<Rightarrow>
          if p = [] then Inl EBUSY
          else if children fs p \<noteq> [] then Inl ENOTEMPTY
          else Inr (filter (\<lambda>x. fst x \<noteq> p) fs))"

text \<open>
  The effect of a successful rename: the subtree at \<open>src\<close> is re-rooted at
  \<open>dst\<close>, and whatever was at \<open>dst\<close> (an empty directory or a file) is gone.
\<close>

definition move :: "fs \<Rightarrow> path \<Rightarrow> path \<Rightarrow> fs" where
  "move fs src dst =
     filter (\<lambda>x. \<not> prefix src (fst x) \<and> \<not> prefix dst (fst x)) fs @
     map (\<lambda>(p, n). (rebase src dst p, n)) (filter (\<lambda>x. prefix src (fst x)) fs)"

text \<open>\<open>rename(2)\<close> on Linux.\<close>

definition sys_rename :: "fs \<Rightarrow> path \<Rightarrow> path \<Rightarrow> errno + fs" where
  "sys_rename fs src dst =
     (case lstat fs src of
        Inl e \<Rightarrow> Inl e
      | Inr n \<Rightarrow>
          (case walk fs [] dst of
             Some e \<Rightarrow> Inl e
           | None \<Rightarrow>
               if src = [] \<or> dst = [] then Inl EBUSY
               else if src = dst then Inr fs
               else if prefix src dst then Inl EINVAL
               else (case fs_lookup fs dst of
                       None \<Rightarrow> Inr (move fs src dst)
                     | Some Dir \<Rightarrow>
                         (case n of
                            File _ \<Rightarrow> Inl EISDIR
                          | Dir \<Rightarrow> if children fs dst \<noteq> [] then Inl ENOTEMPTY
                                   else Inr (move fs src dst))
                     | Some (File _) \<Rightarrow>
                         (case n of
                            Dir \<Rightarrow> Inl ENOTDIR
                          | File _ \<Rightarrow> Inr (move fs src dst)))))"

text \<open>
  \<open>os.Rename\<close> (Go 1.8 and later, Unix): an existing directory at the new name is
  refused with \<open>EEXIST\<close> before the system call, unless the old name fails to
  resolve, whose error is then reported instead.
\<close>

definition os_rename :: "fs \<Rightarrow> path \<Rightarrow> path \<Rightarrow> errno + fs" where
  "os_rename fs oldname newname =
     (case lstat fs newname of
        Inr Dir \<Rightarrow> (case lstat fs oldname of Inl e \<Rightarrow> Inl e | Inr _ \<Rightarrow> Inl EEXIST)
      | _ \<Rightarrow> sys_rename fs oldname newname)"

text \<open>
  The abstract view of a rename: the tree as a partial map from paths to nodes,
  in which the subtree at \<open>src\<close> is seen at \<open>dst\<close> and nothing is left at \<open>src\<close>.
\<close>

definition amove :: "(path \<rightharpoonup> node) \<Rightarrow> path \<Rightarrow> path \<Rightarrow> (path \<rightharpoonup> node)" where
  "amove m src dst =
     (\<lambda>p. if prefix dst p then m (src @ drop (length dst) p)
          else if prefix src p then None else m p)"

text \<open>\<open>File.Readdirnames(-1)\<close> on an opened path: a plain file is \<open>ENOTDIR\<close>.\<close>

definition readdir :: "fs \<Rightarrow> path \<Rightarrow> errno + name list" where
  "readdir fs d =
     (case lstat fs d of
        Inl e \<Rightarrow> Inl e
      | Inr (File _) \<Rightarrow> Inl ENOTDIR
      | Inr Dir \<Rightarrow> Inr (children fs d))"

section \<open>Unique temporary names\<close>

text \<open>
  \<open>os.MkdirTemp\<close> and \<open>os.CreateTemp\<close> (what \<open>ioutil.TempDir\<close> and
  \<open>ioutil.TempFile\<close> call): the last \<open>*\<close> of the pattern marks where the random
  part goes, otherwise it is appended; a pattern with a path separator is refused.
\<close>

definition prefixAndSuffix :: "string \<Rightarrow> errno + string \<times> string" where
  "prefixAndSuffix pattern =
     (if CHR ''/'' \<in> set pattern then Inl ErrPatternHasSeparator
      else if CHR ''*'' \<in> set pattern then
        (let suf = rev (takeWhile (\<lambda>c. c \<noteq> CHR ''*'') (rev pattern))
         in Inr (take (length pattern - length suf - 1) pattern, suf))
      else Inr (pattern, []))"

text \<open>
  The random parts (\<open>nextRandom()\<close>) are the list \<open>rnds\<close>, one per attempt; the
  library gives up after 10000 attempts that all found the name taken.
\<close>

fun mkdir_temp_loop :: "fs \<Rightarrow> path \<Rightarrow> string \<Rightarrow> string \<Rightarrow> string list \<Rightarrow> errno + path \<times> fs" where
  "mkdir_temp_loop fs d pre suf [] = Inl EEXIST"
| "mkdir_temp_loop fs d pre suf (r # rs) =
     (let nm = d @ [pre @ r @ suf] in
      case mkdir fs nm of
        Inr fs' \<Rightarrow> Inr (nm, fs')
      | Inl e \<Rightarrow>
          if IsExist e then mkdir_temp_loop fs d pre suf rs
          else if IsNotExist e then
            (case lstat fs d of
               Inl e' \<Rightarrow> if IsNotExist e' then Inl e' else Inl e
             | Inr _ \<Rightarrow> Inl e)
          else Inl e)"

definition MkdirTemp :: "fs \<Rightarrow> path \<Rightarrow> string \<Rightarrow> string list \<Rightarrow> errno + path \<times> fs" where
  "MkdirTemp fs d pattern rnds =
     (case prefixAndSuffix pattern of
        Inl e \<Rightarrow> Inl e
      | Inr (pre, suf) \<Rightarrow> mkdir_temp_loop fs d pre suf (take 10000 rnds))"

fun create_temp_loop :: "fs \<Rightarrow> path \<Rightarrow> string \<Rightarrow> string \<Rightarrow> string list \<Rightarrow> errno + path \<times> fs" where
  "create_temp_loop fs d pre suf [] = Inl EEXIST"
| "create_temp_loop fs d pre suf (r # rs) =
     (let nm = d @ [pre @ r @ suf] in
      case create_excl fs nm of
        Inr fs' \<Rightarrow> Inr (nm, fs')
      | Inl e \<Rightarrow> if IsExist e then create_temp_loop fs d pre suf rs else Inl e)"

definition CreateTemp :: "fs \<Rightarrow> path \<Rightarrow> string \<Rightarrow> string list \<Rightarrow> errno + path \<times> fs" where
  "CreateTemp fs d pattern rnds =
     (case prefixAndSuffix pattern of
        Inl e \<Rightarrow> Inl e
      | Inr (pre, suf) \<Rightarrow> create_temp_loop fs d pre suf (take 10000 rnds))"

section \<open>Processes and randomness\<close>

text \<open>
  The liveness probe \<open>syscall.Kill(pid, 0)\<close> is an oracle: its result for each
  process id, \<open>None\<close> when the signal could be delivered, so that
  \<open>syscall.Kill(pid, 0)\<close> is \<open>ps pid\<close> for the process table \<open>ps\<close>. \<open>rand.Intn(n)\<close> is a
  random source, a stream of draws; the k-th call answers the k-th draw modulo
  \<open>n\<close>, so every answer below \<open>n\<close> is possible.
\<close>

type_synonym procs = "int \<Rightarrow> errno option"

definition Intn :: "(nat \<Rightarrow> nat) \<Rightarrow> nat \<Rightarrow> nat \<Rightarrow> nat" where
  "Intn rnd k n = rnd k mod n"

section \<open>Properties of the substrate\<close>

subsection \<open>Path resolution and well-formed trees\<close>

lemma walk_None_iff:
  "walk fs cur cs = None \<longleftrightarrow> (\<forall>q. strict_prefix q cs \<longrightarrow> fs_lookup fs (cur @ q) = Some Dir)"
proof (induction cs arbitrary: cur)
  case Nil
  then show ?case by simp
next
  case (Cons c cs)
  have "(\<forall>q. strict_prefix q (c # cs) \<longrightarrow> fs_lookup fs (cur @ q) = Some Dir) \<longleftrightarrow>
        fs_lookup fs cur = Some Dir \<and>
        (\<forall>q. strict_prefix q cs \<longrightarrow> fs_lookup fs ((cur @ [c]) @ q) = Some Dir)"
  proof
    assume H: "\<forall>q. strict_prefix q (c # cs) \<longrightarrow> fs_lookup fs (cur @ q) = Some Dir"
    show "fs_lookup fs cur = Some Dir \<and>
        (\<forall>q. strict_prefix q cs \<longrightarrow> fs_lookup fs ((cur @ [c]) @ q) = Some Dir)"
      using H [rule_format, of "[]"] H [rule_format, of "c # _"] by simp
  next
    assume H: "fs_lookup fs cur = Some Dir \<and>
        (\<forall>q. strict_prefix q cs \<longrightarrow> fs_lookup fs ((cur @ [c]) @ q) = Some Dir)"
    show "\<forall>q. strict_prefix q (c # cs) \<longrightarrow> fs_lookup fs (cur @ q) = Some Dir"
    proof (intro allI impI)
      fix q assume "strict_prefix q (c # cs)"
      with H show "fs_lookup fs (cur @ q) = Some Dir"
        by (cases q) auto
    qed
  qed
  with Cons.IH show ?case
    by (simp split: option.splits node.splits)
qed

lemma fs_lookup_None_iff: "fs_lookup fs p = None \<longleftrightarrow> p \<notin> fst ` set fs"
  by (simp add: fs_lookup_def map_of_eq_None_iff)

lemma fs_wf_parent:
  "fs_wf fs \<Longrightarrow> fs_lookup fs p \<noteq> None \<Longrightarrow> p \<noteq> [] \<Longrightarrow> fs_lookup fs (butlast p) = Some Dir"
  by (auto simp: fs_wf_def list_all_iff fs_lookup_None_iff)

lemma fs_wf_ancestor:
  assumes wf: "fs_wf fs" and ex: "fs_lookup fs p \<noteq> None" and sp: "strict_prefix q p"
  shows "fs_lookup fs q = Some Dir"
  using ex sp
proof (induction p rule: rev_induct)
  case Nil
  then show ?case by simp
next
  case (snoc c p)
  from wf snoc.prems(1) have par: "fs_lookup fs p = Some Dir"
    using fs_wf_parent by fastforce
  from snoc.prems(2) have "q = p \<or> strict_prefix q p"
    by (metis prefix_order.le_less
        prefix_snoc prefix_order.less_irrefl)
  then show ?case
  proof
    assume "q = p" with par show ?thesis by simp
  next
    assume "strict_prefix q p" with par snoc.IH show ?thesis by simp
  qed
qed

lemma strict_prefix_butlast:
  assumes "p \<noteq> []"
  shows "strict_prefix q p \<longleftrightarrow> prefix q (butlast p)"
proof -
  obtain b l where p: "p = b @ [l]"
    using assms by (cases p rule: rev_cases) auto
  have "prefix q b \<Longrightarrow> q \<noteq> b @ [l]"
    using prefix_length_le by fastforce
  with p show ?thesis by (auto simp: strict_prefix_def)
qed

lemma walk_wf:
  assumes wf: "fs_wf fs"
  shows "walk fs [] p = None \<longleftrightarrow> p = [] \<or> fs_lookup fs (butlast p) = Some Dir"
proof (cases "p = []")
  case True
  then show ?thesis by simp
next
  case False
  have "(\<forall>q. strict_prefix q p \<longrightarrow> fs_lookup fs q = Some Dir) \<longleftrightarrow> fs_lookup fs (butlast p) = Some Dir"
  proof
    assume "\<forall>q. strict_prefix q p \<longrightarrow> fs_lookup fs q = Some Dir"
    with False show "fs_lookup fs (butlast p) = Some Dir"
      by (simp add: strict_prefix_butlast)
  next
    assume bl: "fs_lookup fs (butlast p) = Some Dir"
    show "\<forall>q. strict_prefix q p \<longrightarrow> fs_lookup fs q = Some Dir"
    proof (intro allI impI)
      fix q assume "strict_prefix q p"
      with False have "q = butlast p \<or> strict_prefix q (butlast p)"
        by (auto simp: strict_prefix_butlast prefix_order.le_less)
      with bl wf show "fs_lookup fs q = Some Dir"
        using fs_wf_ancestor by fastforce
    qed
  qed
  with False show ?thesis by (simp add: walk_None_iff)
qed

lemma fs_wf_root: "fs_wf fs \<Longrightarrow> fs_lookup fs [] = Some Dir"
  by (simp add: fs_wf_def)

lemma walk_wf_exists:
  "fs_wf fs \<Longrightarrow> fs_lookup fs p \<noteq> None \<Longrightarrow> walk fs [] p = None"
  using walk_wf fs_wf_parent by blast

lemma lstat_wf:
  "fs_wf fs \<Longrightarrow> lstat fs p = Inr n \<longleftrightarrow> fs_lookup fs p = Some n"
  by (auto simp: lstat_def walk_wf_exists split: option.splits)

lemma lstat_wf_missing:
  "fs_wf fs \<Longrightarrow> fs_lookup fs (butlast p) = Some Dir \<Longrightarrow> fs_lookup fs p = None \<Longrightarrow>
   lstat fs p = Inl ENOENT"
proof -
  assume wf: "fs_wf fs" and par: "fs_lookup fs (butlast p) = Some Dir" and none: "fs_lookup fs p = None"
  then have "walk fs [] p = None" by (simp add: walk_wf)
  with none show "lstat fs p = Inl ENOENT" by (simp add: lstat_def)
qed

lemma is_child_iff: "is_child d p \<longleftrightarrow> (\<exists>n. p = d @ [n])"
proof
  assume "is_child d p"
  then have "p = d @ [last p]"
    using append_butlast_last_id [of p] by (simp add: is_child_def)
  then show "\<exists>n. p = d @ [n]" ..
next
  assume "\<exists>n. p = d @ [n]"
  then show "is_child d p" by (auto simp: is_child_def)
qed

lemma children_iff: "n \<in> set (children fs d) \<longleftrightarrow> fs_lookup fs (d @ [n]) \<noteq> None"
  by (force simp: children_def is_child_iff fs_lookup_None_iff)

lemma children_not_dir:
  "fs_wf fs \<Longrightarrow> fs_lookup fs d \<noteq> Some Dir \<Longrightarrow> children fs d = []"
  by (metis append_is_Nil_conv butlast_snoc children_iff fs_wf_parent last_in_set not_Cons_self2)

lemma distinct_children:
  assumes "distinct (map fst fs)"
  shows "distinct (children fs d)"
proof -
  have "children fs d = map last (filter (is_child d) (map fst fs))"
    by (simp add: children_def filter_map comp_def)
  moreover have "inj_on last (set (filter (is_child d) (map fst fs)))"
    by (auto simp: inj_on_def is_child_iff)
  ultimately show ?thesis
    using assms by (simp add: distinct_map)
qed

lemma no_descendants:
  assumes wf: "fs_wf fs" and empty: "children fs d = []" and sp: "strict_prefix d p"
  shows "fs_lookup fs p = None"
proof (rule ccontr)
  assume ex: "fs_lookup fs p \<noteq> None"
  from sp obtain c r where p: "p = d @ c # r"
    by (auto elim: strict_prefixE')
  have "fs_lookup fs (d @ [c]) \<noteq> None"
  proof (cases "r = []")
    case True with ex p show ?thesis by simp
  next
    case False
    then have "strict_prefix (d @ [c]) p" using p
      by (simp add: strict_prefix_def prefix_def)
    then show ?thesis using fs_wf_ancestor [OF wf ex] by simp
  qed
  with empty show False using children_iff [of c fs d] by simp
qed

lemma file_no_descendants:
  assumes wf: "fs_wf fs" and isfile: "fs_lookup fs d = Some (File c)" and sp: "strict_prefix d p"
  shows "fs_lookup fs p = None"
proof (rule ccontr)
  assume "fs_lookup fs p \<noteq> None"
  from fs_wf_ancestor [OF wf this sp] isfile show False by simp
qed

subsection \<open>Rename refines the abstract move\<close>

theorem move_refines_amove: "fs_lookup (move fs src dst) = amove (fs_lookup fs) src dst"
proof
  fix p
  have "map_of (filter (\<lambda>x. \<not> prefix src (fst x) \<and> \<not> prefix dst (fst x)) fs) p =
        (if \<not> prefix src p \<and> \<not> prefix dst p then map_of fs p else None)"
    by (rule map_of_filter_key [of "\<lambda>k. \<not> prefix src k \<and> \<not> prefix dst k"])
  then show "fs_lookup (move fs src dst) p = amove (fs_lookup fs) src dst p"
    by (simp add: move_def fs_lookup_def amove_def map_of_rebase map_add_def
        split: option.splits)
qed

lemma fs_lookup_move:
  "fs_lookup (move fs src dst) p =
     (if prefix dst p then fs_lookup fs (src @ drop (length dst) p)
      else if prefix src p then None else fs_lookup fs p)"
  by (simp add: move_refines_amove amove_def)

subsection \<open>Every call keeps the tree well-formed\<close>

lemma fs_lookup_snoc:
  "fs_lookup (fs @ [(p, n)]) q = (if q = p \<and> fs_lookup fs p = None then Some n else fs_lookup fs q)"
  by (auto simp: fs_lookup_def map_add_def split: option.splits)

lemma fs_wf_snoc:
  assumes wf: "fs_wf fs" and walk: "walk fs [] p = None" and new: "fs_lookup fs p = None"
  shows "fs_wf (fs @ [(p, n)])"
proof -
  have ne: "p \<noteq> []" using new wf by (auto simp: fs_wf_def)
  with walk wf have par: "fs_lookup fs (butlast p) = Some Dir" by (simp add: walk_wf)
  have keep: "fs_lookup fs q = Some Dir \<Longrightarrow> fs_lookup (fs @ [(p, n)]) q = Some Dir" for q
    by (auto simp: fs_lookup_snoc)
  from wf new par show ?thesis
    by (auto simp: fs_wf_def list_all_iff fs_lookup_None_iff keep)
qed

lemma fs_wf_iff:
  "fs_wf fs \<longleftrightarrow> distinct (map fst fs) \<and> fs_lookup fs [] = Some Dir \<and>
     (\<forall>k. fs_lookup fs k \<noteq> None \<longrightarrow> k \<noteq> [] \<longrightarrow> fs_lookup fs (butlast k) = Some Dir)"
  by (auto simp: fs_wf_def list_all_iff fs_lookup_None_iff)

lemma distinct_move:
  assumes "distinct (map fst fs)"
  shows "distinct (map fst (move fs src dst))"
proof -
  have "distinct (map fst (filter (\<lambda>x. \<not> prefix src (fst x) \<and> \<not> prefix dst (fst x)) fs))"
    using assms by (simp add: distinct_map_filter)
  moreover have "distinct (map fst (map (\<lambda>(p, n). (rebase src dst p, n)) (filter (\<lambda>x. prefix src (fst x)) fs)))"
    using assms by (rule distinct_rebase)
  moreover have "set (map fst (filter (\<lambda>x. \<not> prefix src (fst x) \<and> \<not> prefix dst (fst x)) fs)) \<inter>
      set (map fst (map (\<lambda>(p, n). (rebase src dst p, n)) (filter (\<lambda>x. prefix src (fst x)) fs))) = {}"
    by auto
  ultimately show ?thesis by (simp add: move_def)
qed

lemma fs_wf_move:
  assumes wf: "fs_wf fs" and ne: "src \<noteq> []" "dst \<noteq> []" and np: "\<not> prefix src dst"
    and par: "fs_lookup fs (butlast dst) = Some Dir"
  shows "fs_wf (move fs src dst)"
proof -
  have not_under: "\<not> prefix a (butlast k)" if "\<not> prefix a k" "k \<noteq> []" for a k :: path
    using that prefix_snoc_butlast by blast
  have dst_par: "fs_lookup (move fs src dst) (butlast dst) = Some Dir"
  proof -
    have "\<not> prefix dst (butlast dst)"
    proof
      assume "prefix dst (butlast dst)"
      then have "length dst \<le> length (butlast dst)" by (rule prefix_length_le)
      moreover have "0 < length dst" using ne(2) by simp
      ultimately show False by (simp only: length_butlast)
    qed
    moreover have "\<not> prefix src (butlast dst)"
      using np ne(2) prefix_snoc_butlast by blast
    ultimately show ?thesis using par by (simp add: fs_lookup_move)
  qed
  have parent: "fs_lookup (move fs src dst) (butlast k) = Some Dir"
    if ex: "fs_lookup (move fs src dst) k \<noteq> None" and kne: "k \<noteq> []" for k
  proof (cases "prefix dst k")
    case True
    then obtain r where k: "k = dst @ r" by (auto simp: prefix_def)
    show ?thesis
    proof (cases "r = []")
      case True
      with k dst_par show ?thesis by simp
    next
      case False
      from ex k have "fs_lookup fs (src @ r) \<noteq> None" by (simp add: fs_lookup_move)
      with wf ne(1) have "fs_lookup fs (butlast (src @ r)) = Some Dir"
        by (simp add: fs_wf_parent)
      with False k show ?thesis by (simp add: fs_lookup_move butlast_append)
    qed
  next
    case False
    with ex have nsrc: "\<not> prefix src k" and old: "fs_lookup fs k \<noteq> None"
      by (auto simp: fs_lookup_move split: if_splits)
    from wf old kne have "fs_lookup fs (butlast k) = Some Dir" by (rule fs_wf_parent)
    with not_under [OF False kne] not_under [OF nsrc kne] show ?thesis
      by (simp add: fs_lookup_move)
  qed
  have root: "fs_lookup (move fs src dst) [] = Some Dir"
    using wf ne by (simp add: fs_lookup_move fs_wf_root)
  from wf have "distinct (map fst fs)" by (simp add: fs_wf_def)
  then have "distinct (map fst (move fs src dst))" by (rule distinct_move)
  with root parent show ?thesis by (simp add: fs_wf_iff)
qed

lemma fs_lookup_filter_out:
  "fs_lookup (filter (\<lambda>x. fst x \<noteq> p) fs) k = (if k = p then None else fs_lookup fs k)"
  unfolding fs_lookup_def by (induction fs) auto

lemma mkdir_Inr: "mkdir fs p = Inr fs' \<Longrightarrow> walk fs [] p = None \<and> fs_lookup fs p = None \<and> fs' = fs @ [(p, Dir)]"
  by (auto simp: mkdir_def split: option.splits if_splits)

lemma create_excl_Inr: "create_excl fs p = Inr fs' \<Longrightarrow> walk fs [] p = None \<and> fs_lookup fs p = None \<and> fs' = fs @ [(p, File [])]"
  by (auto simp: create_excl_def split: option.splits if_splits)

lemma fs_wf_mkdir [wf_intros]: "fs_wf fs \<Longrightarrow> mkdir fs p = Inr fs' \<Longrightarrow> fs_wf fs'"
  using mkdir_Inr fs_wf_snoc by blast

lemma fs_wf_create_excl [wf_intros]: "fs_wf fs \<Longrightarrow> create_excl fs p = Inr fs' \<Longrightarrow> fs_wf fs'"
  using create_excl_Inr fs_wf_snoc by blast

lemma fs_wf_write_file [wf_intros]:
  assumes wf: "fs_wf fs" and w: "write_file fs p data = Inr fs'"
  shows "fs_wf fs'"
proof -
  from w obtain c where c: "fs_lookup fs p = Some (File c)"
    and fs': "fs' = map (\<lambda>x. if fst x = p then (p, File (c @ data)) else x) fs"
    by (auto simp: write_file_def split: option.splits node.splits)
  have keep: "fs_lookup fs q = Some Dir \<Longrightarrow> fs_lookup fs' q = Some Dir" for q
    using c by (auto simp: fs' fs_lookup_def)
  have same: "fs_lookup fs' q \<noteq> None \<longleftrightarrow> fs_lookup fs q \<noteq> None" for q
    by (auto simp: fs' fs_lookup_def)
  from wf show ?thesis
    unfolding fs_wf_iff using keep same by (simp add: fs')
qed

lemma remove_Inr:
  assumes wf: "fs_wf fs" and r: "remove fs p = Inr fs'"
  shows "fs' = filter (\<lambda>x. fst x \<noteq> p) fs \<and> p \<noteq> [] \<and> fs_lookup fs p \<noteq> None \<and>
         (\<forall>q. strict_prefix p q \<longrightarrow> fs_lookup fs q = None)"
proof -
  from r obtain n where n: "lstat fs p = Inr n"
    by (cases "lstat fs p") (auto simp: remove_def)
  with wf have look: "fs_lookup fs p = Some n" by (simp add: lstat_wf)
  show ?thesis
  proof (cases n)
    case (File c)
    with r n have "fs' = filter (\<lambda>x. fst x \<noteq> p) fs" by (simp add: remove_def)
    moreover have "p \<noteq> []" using wf look File by (auto simp: fs_wf_root)
    moreover have "\<forall>q. strict_prefix p q \<longrightarrow> fs_lookup fs q = None"
      using file_no_descendants [OF wf] look File by blast
    ultimately show ?thesis using look by simp
  next
    case Dir
    with r n have "p \<noteq> []" "children fs p = []" "fs' = filter (\<lambda>x. fst x \<noteq> p) fs"
      by (auto simp: remove_def split: if_splits)
    moreover have "\<forall>q. strict_prefix p q \<longrightarrow> fs_lookup fs q = None"
      using no_descendants [OF wf \<open>children fs p = []\<close>] by blast
    ultimately show ?thesis using look by simp
  qed
qed

lemma fs_wf_remove [wf_intros]:
  assumes wf: "fs_wf fs" and r: "remove fs p = Inr fs'"
  shows "fs_wf fs'"
proof -
  from remove_Inr [OF wf r] have fs': "fs' = filter (\<lambda>x. fst x \<noteq> p) fs" and ne: "p \<noteq> []"
    and leaf: "\<forall>q. strict_prefix p q \<longrightarrow> fs_lookup fs q = None" by auto
  have parent: "fs_lookup fs' (butlast k) = Some Dir"
    if ex: "fs_lookup fs' k \<noteq> None" and kne: "k \<noteq> []" for k
  proof -
    from ex have kp: "k \<noteq> p" and old: "fs_lookup fs k \<noteq> None"
      by (auto simp: fs' fs_lookup_filter_out split: if_splits)
    have "butlast k \<noteq> p"
    proof
      assume "butlast k = p"
      with kne have "strict_prefix p k"
        using strict_prefix_butlast by blast
      with leaf old show False by simp
    qed
    with wf old kne show ?thesis by (simp add: fs' fs_lookup_filter_out fs_wf_parent)
  qed
  from wf ne have "fs_lookup fs' [] = Some Dir" by (simp add: fs' fs_lookup_filter_out fs_wf_root)
  moreover from wf have "distinct (map fst fs')" by (simp add: fs' fs_wf_def distinct_map_filter)
  ultimately show ?thesis using parent by (simp add: fs_wf_iff)
qed

lemma sys_rename_Inr:
  assumes "sys_rename fs src dst = Inr fs'"
  shows "fs' = fs \<or>
    (fs' = move fs src dst \<and> src \<noteq> [] \<and> dst \<noteq> [] \<and> \<not> prefix src dst \<and> walk fs [] dst = None)"
  using assms
  by (auto simp: sys_rename_def split: sum.splits option.splits if_splits node.splits)

lemma os_rename_Inr: "os_rename fs src dst = Inr fs' \<Longrightarrow> sys_rename fs src dst = Inr fs'"
  by (auto simp: os_rename_def split: sum.splits node.splits)

lemma fs_wf_sys_rename [wf_intros]:
  assumes wf: "fs_wf fs" and r: "sys_rename fs src dst = Inr fs'"
  shows "fs_wf fs'"
  using sys_rename_Inr [OF r]
proof
  assume "fs' = fs" with wf show ?thesis by simp
next
  assume m: "fs' = move fs src dst \<and> src \<noteq> [] \<and> dst \<noteq> [] \<and> \<not> prefix src dst \<and> walk fs [] dst = None"
  with wf have "fs_lookup fs (butlast dst) = Some Dir" by (auto simp: walk_wf)
  with m wf show ?thesis using fs_wf_move by blast
qed

lemma fs_wf_os_rename [wf_intros]: "fs_wf fs \<Longrightarrow> os_rename fs src dst = Inr fs' \<Longrightarrow> fs_wf fs'"
  using os_rename_Inr fs_wf_sys_rename by blast

subsection \<open>When a rename succeeds and when it fails\<close>

text \<open>A rename to a fresh name in an existing directory succeeds.\<close>

lemma os_rename_fresh:
  assumes wf: "fs_wf fs" and src: "fs_lookup fs src \<noteq> None" and sne: "src \<noteq> []"
    and par: "fs_lookup fs (butlast dst) = Some Dir" and dne: "dst \<noteq> []"
    and fresh: "fs_lookup fs dst = None" and np: "\<not> prefix src dst"
  shows "os_rename fs src dst = Inr (move fs src dst)"
proof -
  from wf par fresh have "lstat fs dst = Inl ENOENT" by (rule lstat_wf_missing)
  moreover from wf src obtain n where "lstat fs src = Inr n" by (auto simp: lstat_wf)
  moreover from wf dne par have "walk fs [] dst = None" by (simp add: walk_wf)
  moreover from np have "src \<noteq> dst" by auto
  ultimately show ?thesis using sne dne np fresh
    by (simp add: os_rename_def sys_rename_def)
qed

text \<open>A rename whose source is gone fails with \<open>ENOENT\<close>, whatever the destination.\<close>

lemma os_rename_src_missing:
  assumes wf: "fs_wf fs" and par: "fs_lookup fs (butlast src) = Some Dir" and sne: "src \<noteq> []"
    and gone: "fs_lookup fs src = None"
  shows "os_rename fs src dst = Inl ENOENT"
proof -
  from wf par gone have "lstat fs src = Inl ENOENT" by (rule lstat_wf_missing)
  then show ?thesis
    by (simp add: os_rename_def sys_rename_def split: sum.splits node.splits)
qed

text \<open>After a successful rename between different names, the old name is free.\<close>

lemma os_rename_src_gone:
  assumes wf: "fs_wf fs" and r: "os_rename fs src dst = Inr fs'" and ne: "src \<noteq> dst"
  shows "fs_lookup fs' src = None"
proof -
  from r have sr: "sys_rename fs src dst = Inr fs'" by (rule os_rename_Inr)
  then obtain n where n: "lstat fs src = Inr n"
    by (cases "lstat fs src") (auto simp: sys_rename_def)
  from sr ne have m: "fs' = move fs src dst"
    by (auto simp: sys_rename_def n split: option.splits if_splits node.splits)
  have "\<not> prefix dst src"
  proof
    assume "prefix dst src"
    with ne have sp: "strict_prefix dst src" by (simp add: strict_prefix_def)
    from wf n have "fs_lookup fs src \<noteq> None" by (simp add: lstat_wf)
    from fs_wf_ancestor [OF wf this sp] have "lstat fs dst = Inr Dir" by (simp add: lstat_wf wf)
    with r n show False by (simp add: os_rename_def)
  qed
  with m show ?thesis by (simp add: fs_lookup_move)
qed

subsection \<open>Temporary names\<close>

lemma mkdir_temp_loop_Inr:
  "mkdir_temp_loop fs d pre suf rs = Inr (nm, fs') \<Longrightarrow>
   \<exists>r \<in> set rs. nm = d @ [pre @ r @ suf] \<and> mkdir fs nm = Inr fs'"
proof (induction rs)
  case Nil
  then show ?case by simp
next
  case (Cons r rs)
  then show ?case
    by (auto simp: Let_def split: sum.splits if_splits option.splits)
qed

lemma create_temp_loop_Inr:
  "create_temp_loop fs d pre suf rs = Inr (nm, fs') \<Longrightarrow>
   \<exists>r \<in> set rs. nm = d @ [pre @ r @ suf] \<and> create_excl fs nm = Inr fs'"
proof (induction rs)
  case Nil
  then show ?case by simp
next
  case (Cons r rs)
  then show ?case
    by (auto simp: Let_def split: sum.splits if_splits)
qed

lemma MkdirTemp_Inr:
  "MkdirTemp fs d pattern rnds = Inr (nm, fs') \<Longrightarrow>
   \<exists>pre r suf. nm = d @ [pre @ r @ suf] \<and> mkdir fs nm = Inr fs'"
  by (auto simp: MkdirTemp_def split: sum.splits dest!: mkdir_temp_loop_Inr)

lemma CreateTemp_Inr:
  "CreateTemp fs d pattern rnds = Inr (nm, fs') \<Longrightarrow>
   \<exists>pre r suf. nm = d @ [pre @ r @ suf] \<and> create_excl fs nm = Inr fs'"
  by (auto simp: CreateTemp_def split: sum.splits dest!: create_temp_loop_Inr)

lemma fs_wf_MkdirTemp [wf_intros]:
  "fs_wf fs \<Longrightarrow> MkdirTemp fs d pattern rnds = Inr (nm, fs') \<Longrightarrow> fs_wf fs'"
  using MkdirTemp_Inr fs_wf_mkdir by blast

lemma fs_wf_CreateTemp [wf_intros]:
  "fs_wf fs \<Longrightarrow> CreateTemp fs d pattern rnds = Inr (nm, fs') \<Longrightarrow> fs_wf fs'"
  using CreateTemp_Inr fs_wf_create_excl by blast

subsection \<open>Resolution failures and rename outcomes\<close>

lemma walk_snoc:
  "walk fs cur (cs @ [c]) =
     (case walk fs cur cs of
        Some e \<Rightarrow> Some e
      | None \<Rightarrow> (case fs_lookup fs (cur @ cs) of
                  None \<Rightarrow> Some ENOENT
                | Some (File _) \<Rightarrow> Some ENOTDIR
                | Some Dir \<Rightarrow> None))"
  by (induction cs arbitrary: cur) (auto split: option.splits node.splits)

lemma walk_missing_dir:
  assumes wf: "fs_wf fs" and par: "fs_lookup fs (butlast d) = Some Dir" and gone: "fs_lookup fs d = None"
  shows "walk fs [] (d @ [c]) = Some ENOENT"
proof -
  have "d \<noteq> []" using wf gone by (auto simp: fs_wf_root)
  with wf par have "walk fs [] d = None" by (simp add: walk_wf)
  with gone show ?thesis by (simp add: walk_snoc)
qed

lemma os_rename_not_ENOENT:
  assumes wf: "fs_wf fs" and src: "fs_lookup fs src \<noteq> None"
    and par: "fs_lookup fs (butlast dst) = Some Dir"
  shows "os_rename fs src dst \<noteq> Inl ENOENT"
proof -
  from wf src obtain n where n: "lstat fs src = Inr n" by (auto simp: lstat_wf)
  have "walk fs [] dst = None" using wf par by (simp add: walk_wf)
  with n show ?thesis
    by (auto simp: os_rename_def sys_rename_def split: sum.splits node.splits option.splits)
qed

lemma os_rename_dst:
  "os_rename fs src dst = Inr fs' \<Longrightarrow> fs_lookup fs' dst = fs_lookup fs src"
  by (drule os_rename_Inr)
     (auto simp: sys_rename_def fs_lookup_move split: sum.splits option.splits if_splits node.splits)

lemma lstat_wf_Some: "fs_wf fs \<Longrightarrow> fs_lookup fs p = Some n \<Longrightarrow> lstat fs p = Inr n"
  by (simp add: lstat_wf)

text \<open>Frame rules: a rename changes only paths below its source and target, a removal only its path.\<close>

lemma os_rename_frame:
  "os_rename fs a b = Inr fs' \<Longrightarrow> \<not> prefix a p \<Longrightarrow> \<not> prefix b p \<Longrightarrow> fs_lookup fs' p = fs_lookup fs p"
  by (drule os_rename_Inr, drule sys_rename_Inr) (auto simp: fs_lookup_move)

lemma os_rename_moved:
  assumes "os_rename fs src dst = Inr fs'" and "src \<noteq> dst"
  shows "fs' = move fs src dst \<and> fs_lookup fs src \<noteq> None"
proof -
  from assms(1) have sr: "sys_rename fs src dst = Inr fs'" by (rule os_rename_Inr)
  then obtain n where "lstat fs src = Inr n" by (cases "lstat fs src") (auto simp: sys_rename_def)
  then have "fs_lookup fs src \<noteq> None"
    by (auto simp: lstat_def split: option.splits)
  moreover from sr assms(2) have "fs' = move fs src dst"
    by (auto simp: sys_rename_def split: sum.splits option.splits if_splits node.splits)
  ultimately show ?thesis by simp
qed

lemma remove_frame:
  "remove fs x = Inr fs' \<Longrightarrow> p \<noteq> x \<Longrightarrow> fs_lookup fs' p = fs_lookup fs p"
  by (auto simp: remove_def fs_lookup_filter_out split: sum.splits node.splits if_splits)

text \<open>Growing the tree at its end keeps every lookup that succeeded and every resolution.\<close>

lemma fs_lookup_append:
  "fs_lookup (fs @ ys) k = (case fs_lookup fs k of None \<Rightarrow> map_of ys k | Some v \<Rightarrow> Some v)"
  by (simp add: fs_lookup_def map_add_def split: option.splits)

lemma walk_append: "walk fs c p = None \<Longrightarrow> walk (fs @ ys) c p = None"
  by (simp add: walk_None_iff fs_lookup_append)

lemma walk_Some: "walk fs c p = Some e \<Longrightarrow> e = ENOENT \<or> e = ENOTDIR"
  by (induction fs c p rule: walk.induct) (auto split: option.splits node.splits)

lemma map_of_all_dirs:
  fixes ys :: fs
  assumes "snd ` set ys \<subseteq> {Dir}"
  shows "map_of ys k = None \<or> map_of ys k = Some Dir"
proof (cases "map_of ys k")
  case (Some a)
  then have "(k, a) \<in> set ys" by (rule map_of_SomeD)
  then have "a \<in> snd ` set ys" by force
  with assms Some show ?thesis by auto
qed simp

end
