(* ===== verification/StrConv.thy ===== *)
theory StrConv
  imports Prelude
begin

text \<open>
  Go's \<open>strconv.Itoa\<close> and \<open>strconv.Atoi\<close> on a 64-bit platform, which the queue
  uses to name a worker's owner slot after its process id (\<open>mycur\<close>) and to read
  the process id back from a slot's name (\<open>RescueDeadJobs\<close>). Library code,
  modelled from the Go documentation and source. Atoi's digit test is Go's byte
  arithmetic: \<open>ch -= '0'; if ch > 9\<close> on an 8-bit unsigned value.
\<close>

definition digit_char :: "nat \<Rightarrow> char" where
  "digit_char d = ''0123456789'' ! d"

fun nat_digits :: "nat \<Rightarrow> string" where
  "nat_digits n = (if n < 10 then [digit_char n] else nat_digits (n div 10) @ [digit_char (n mod 10)])"

definition Itoa :: "int \<Rightarrow> string" where
  "Itoa i = (if i < 0 then CHR ''-'' # nat_digits (nat (- i)) else nat_digits (nat i))"

definition digit_val :: "char \<Rightarrow> 8 word" where
  "digit_val c = of_char c - 48"

definition digits_value :: "string \<Rightarrow> int" where
  "digits_value ds = foldl (\<lambda>n c. 10 * n + uint (digit_val c)) 0 ds"

definition split_sign :: "string \<Rightarrow> bool \<times> string" where
  "split_sign s =
     (case s of
        [] \<Rightarrow> (False, [])
      | c # r \<Rightarrow> if c = CHR ''-'' then (True, r) else if c = CHR ''+'' then (False, r) else (False, s))"

definition Atoi :: "string \<Rightarrow> int option" where
  "Atoi s =
     (let (neg, ds) = split_sign s
      in if ds = [] \<or> \<not> list_all (\<lambda>c. digit_val c \<le> 9) ds then None
         else let v = digits_value ds; n = (if neg then - v else v)
              in if - (2 ^ 63) \<le> n \<and> n < 2 ^ 63 then Some n else None)"

declare nat_digits.simps [simp del]

lemma digit_val_digit_char:
  assumes "d < 10"
  shows "digit_val (digit_char d) = of_nat d"
proof -
  from assms have "d \<in> {0, 1, 2, 3, 4, 5, 6, 7, 8, 9}" by auto
  then show ?thesis by (auto simp: digit_val_def digit_char_def)
qed

lemma uint_digit: "d < 10 \<Longrightarrow> uint (of_nat d :: 8 word) = int d"
  by (simp add: uint_nat unat_of_nat)

lemma nat_digits_ne: "nat_digits n \<noteq> []"
  by (subst nat_digits.simps) simp

lemma nat_digits_digits: "c \<in> set (nat_digits n) \<Longrightarrow> digit_val c \<le> 9"
proof (induction n rule: nat_digits.induct)
  case (1 n)
  have small: "d < 10 \<Longrightarrow> digit_val (digit_char d) \<le> 9" for d
    by (simp add: digit_val_digit_char word_le_nat_alt unat_of_nat)
  show ?case
  proof (cases "n < 10")
    case True
    with "1.prems" show ?thesis by (simp add: nat_digits.simps small)
  next
    case False
    with "1.prems" have "c \<in> set (nat_digits (n div 10)) \<or> c = digit_char (n mod 10)"
      by (auto simp: nat_digits.simps [of n])
    then show ?thesis
    proof
      assume "c \<in> set (nat_digits (n div 10))"
      with "1.IH" False show ?thesis by blast
    next
      assume "c = digit_char (n mod 10)"
      then show ?thesis using small by simp
    qed
  qed
qed

lemma digits_value_nat_digits: "digits_value (nat_digits n) = int n"
proof (induction n rule: nat_digits.induct)
  case (1 n)
  show ?case
  proof (cases "n < 10")
    case True
    then show ?thesis
      by (simp add: nat_digits.simps digits_value_def digit_val_digit_char uint_digit)
  next
    case False
    with "1.IH" have "digits_value (nat_digits (n div 10)) = int (n div 10)" by simp
    moreover have "10 * int (n div 10) + int (n mod 10) = int n"
    proof -
      have "int (10 * (n div 10) + n mod 10) = int n" by simp
      then show ?thesis by (simp only: of_nat_add of_nat_mult of_nat_numeral)
    qed
    ultimately show ?thesis using False
      by (simp add: nat_digits.simps [of n] digits_value_def digit_val_digit_char uint_digit)
  qed
qed

lemma sign_chars_not_digits:
  "\<not> digit_val CHR ''-'' \<le> 9" "\<not> digit_val CHR ''+'' \<le> 9"
  by (simp_all add: digit_val_def)

lemma split_sign_digits:
  "ds \<noteq> [] \<Longrightarrow> digit_val (hd ds) \<le> 9 \<Longrightarrow> split_sign ds = (False, ds)"
  using sign_chars_not_digits by (cases ds) (auto simp: split_sign_def)

lemma Atoi_range: "Atoi s = Some v \<Longrightarrow> - (2 ^ 63) \<le> v \<and> v < 2 ^ 63"
  by (auto simp: Atoi_def Let_def split: prod.splits if_splits)

theorem Atoi_Itoa:
  assumes "- (2 ^ 63) \<le> i" and "i < 2 ^ 63"
  shows "Atoi (Itoa i) = Some i"
proof (cases "i < 0")
  case True
  let ?ds = "nat_digits (nat (- i))"
  have "split_sign (Itoa i) = (True, ?ds)"
    using True by (simp add: Itoa_def split_sign_def)
  moreover have "list_all (\<lambda>c. digit_val c \<le> 9) ?ds"
    by (simp add: list_all_iff nat_digits_digits)
  moreover have "digits_value ?ds = - i"
    using True by (simp add: digits_value_nat_digits)
  ultimately show ?thesis
    using assms nat_digits_ne by (simp add: Atoi_def)
next
  case False
  let ?ds = "nat_digits (nat i)"
  have digits: "list_all (\<lambda>c. digit_val c \<le> 9) ?ds"
    by (simp add: list_all_iff nat_digits_digits)
  then have "split_sign (Itoa i) = (False, ?ds)"
    using False nat_digits_ne
    by (simp add: Itoa_def split_sign_digits list_all_iff)
  moreover have "digits_value ?ds = i"
    using False by (simp add: digits_value_nat_digits)
  ultimately show ?thesis
    using assms digits nat_digits_ne by (simp add: Atoi_def)
qed

section \<open>The digit test on bytes\<close>

lemma digit_val_of_nat: "digit_val c = of_nat (of_char c + 208)"
proof -
  have "(of_char c :: 8 word) = of_nat (of_char c)" by (simp add: of_nat_of_char)
  moreover have "(of_nat (of_char c + 208) :: 8 word) = of_nat (of_char c) - 48"
    by simp
  ultimately show ?thesis by (simp add: digit_val_def)
qed

lemma digit_chars: "c \<in> set ''0123456789'' \<longleftrightarrow> 48 \<le> (of_char c :: nat) \<and> (of_char c :: nat) \<le> 57"
proof -
  have m: "map (of_char :: char \<Rightarrow> nat) ''0123456789'' = [48..<58]" by (simp add: upt_rec)
  have "c \<in> set ''0123456789'' \<longleftrightarrow> (of_char c :: nat) \<in> (of_char :: char \<Rightarrow> nat) ` set ''0123456789''"
    by (rule inj_image_mem_iff [symmetric]) (simp add: inj_def)
  also have "\<dots> \<longleftrightarrow> (of_char c :: nat) \<in> set [48..<58]" by (simp only: m flip: set_map)
  finally show ?thesis by (simp only: set_upt atLeastLessThan_iff) arith
qed

lemma mod_208_le_9:
  fixes x :: nat
  assumes lt: "x < 256"
  shows "(x + 208) mod 256 \<le> 9 \<longleftrightarrow> 48 \<le> x \<and> x \<le> 57"
proof (cases "x < 48")
  case True
  then have "(x + 208) mod 256 = x + 208" by simp
  with True show ?thesis by simp
next
  case False
  then have eq: "x + 208 = (x - 48) + 256" by simp
  have "(x + 208) mod 256 = ((x - 48) + 256) mod 256" by (simp only: eq)
  also have "\<dots> = (x - 48) mod 256" by (rule mod_add_self2)
  also have "\<dots> = x - 48" using lt by (intro mod_less) linarith
  finally show ?thesis using False by linarith
qed

text \<open>
  Atoi's one-comparison digit test is exact: Go computes \<open>ch - '0'\<close> on a
  byte, so a character below \<open>'0'\<close> wraps around to a value above 9, and
  \<open>ch - '0' <= 9\<close> holds exactly for the ten decimal digits.
\<close>

theorem digit_test_bounds: "digit_val c \<le> 9 \<longleftrightarrow> c \<in> set ''0123456789''"
proof -
  have lt: "(of_char c :: nat) < 256" by (rule nat_of_char_less_256)
  have "digit_val c \<le> 9 \<longleftrightarrow> unat (digit_val c) \<le> 9" by (simp add: word_le_nat_alt)
  also have "unat (digit_val c) = (of_char c + 208) mod 256"
    unfolding digit_val_of_nat unat_of_nat by simp
  also have "(of_char c + 208) mod 256 \<le> (9::nat) \<longleftrightarrow> 48 \<le> (of_char c :: nat) \<and> (of_char c :: nat) \<le> 57"
    using lt by (rule mod_208_le_9)
  finally show ?thesis by (simp only: digit_chars)
qed

end
