(* ===== verification/Queue.thy ===== *)
theory Queue
  imports FileSystem StrConv
begin

text \<open>
  The queue engine of \<open>src/pqueue/pqueue.go\<close>: the \<open>Queue\<close> and \<open>Job\<close> structs as
  records, and \<open>OpenQueue\<close>, \<open>CreateJob\<close>, \<open>Submit\<close>, \<open>Take\<close>, \<open>Finish\<close>
  and \<open>Fail\<close> with their helpers, each a function of the
  filesystem state that returns the Go results and the new state. A Go method
  that updates \<open>job.dir\<close> in place returns the updated job on success.

  The package variable \<open>mycur\<close> is computed from \<open>os.Getpid()\<close> when the
  package loads; the model passes the process id \<open>pid\<close> to the operations that
  read it. The unused field \<open>Queue.mycurdir\<close> keeps its zero value.
\<close>

section \<open>Data\<close>

record queue =
  basedir :: path
  mycurdir :: path

record job =
  Basename :: name
  dir :: path
  q :: queue

text \<open>The log lines the code prints; their text is not part of the contract.\<close>

datatype log_event =
    SetRenameFailed path path
  | CouldNotRescue path
  | NotAPid name
  | KillFailed int errno
  | ProcessGone int
  | RmdirFailed path errno
  | CouldNotReadWorker int path
  | RescheduleFailed name int errno
  | Rescheduled name int

definition mycur :: "int \<Rightarrow> path" where
  "mycur pid = [''cur'', Itoa pid]"

section \<open>Helpers\<close>

definition ensuredir :: "path \<Rightarrow> path \<Rightarrow> fs \<Rightarrow> errno option \<times> fs" where
  "ensuredir base d fs =
     (case mkdir fs (base @ d) of
        Inr fs' \<Rightarrow> (None, fs')
      | Inl e \<Rightarrow> if IsExist e then (None, fs) else (Some e, fs))"

definition readdirnames :: "fs \<Rightarrow> path \<Rightarrow> name list \<times> errno option" where
  "readdirnames fs d =
     (case lstat fs d of
        Inl e \<Rightarrow> ([], Some e)
      | Inr _ \<Rightarrow> (case readdir fs d of Inl e \<Rightarrow> ([], Some e) | Inr names \<Rightarrow> (names, None)))"

definition getNewDir :: "queue \<Rightarrow> path" where
  "getNewDir qu = basedir qu @ [''new'']"

definition getCurDir :: "queue \<Rightarrow> path" where
  "getCurDir qu = basedir qu @ [''cur'']"

definition getWorkerDir :: "queue \<Rightarrow> int \<Rightarrow> path" where
  "getWorkerDir qu pid = basedir qu @ [''cur'', Itoa pid]"

text \<open>
  The shared tail of \<open>Submit\<close>, \<open>Finish\<close> and \<open>Fail\<close>: rename the job's
  directory to \<open>d\<close> and, on success, record the new location.
\<close>

definition job_rename :: "job \<Rightarrow> path \<Rightarrow> fs \<Rightarrow> (errno + job) \<times> fs" where
  "job_rename j d fs =
     (case os_rename fs (dir j) d of
        Inl e \<Rightarrow> (Inl e, fs)
      | Inr fs' \<Rightarrow> (Inr (j\<lparr>dir := d\<rparr>), fs'))"

section \<open>Operations\<close>

definition queue_subdirs :: "int \<Rightarrow> path list" where
  "queue_subdirs pid = [[''tmp''], [''new''], [''cur''], [''done''], [''failed''], mycur pid]"

fun ensure_all :: "path \<Rightarrow> path list \<Rightarrow> fs \<Rightarrow> errno option \<times> fs" where
  "ensure_all base [] fs = (None, fs)"
| "ensure_all base (d # ds) fs =
     (case ensuredir base d fs of
        (Some e, fs') \<Rightarrow> (Some e, fs')
      | (None, fs') \<Rightarrow> ensure_all base ds fs')"

definition OpenQueue :: "int \<Rightarrow> path \<Rightarrow> fs \<Rightarrow> (errno + queue) \<times> fs" where
  "OpenQueue pid d fs =
     (case ensure_all d (queue_subdirs pid) fs of
        (Some e, fs') \<Rightarrow> (Inl e, fs')
      | (None, fs') \<Rightarrow> (Inr \<lparr>basedir = d, mycurdir = []\<rparr>, fs'))"

definition CreateJob :: "queue \<Rightarrow> string \<Rightarrow> string list \<Rightarrow> fs \<Rightarrow> (errno + job) \<times> fs" where
  "CreateJob qu pattern rnds fs =
     (case MkdirTemp fs (basedir qu @ [''tmp'']) pattern rnds of
        Inl e \<Rightarrow> (Inl e, fs)
      | Inr (tmp, fs') \<Rightarrow> (Inr \<lparr>Basename = last tmp, dir = tmp, q = qu\<rparr>, fs'))"

definition Submit :: "job \<Rightarrow> fs \<Rightarrow> (errno + job) \<times> fs" where
  "Submit j fs = job_rename j (basedir (q j) @ [''new'', Basename j]) fs"

text \<open>
  \<open>Take\<close>'s \<open>for\<close> loop retries whenever the rename reports \<open>os.IsNotExist\<close>. The
  loop is given fuel: one unit per iteration, \<open>None\<close> when it runs out. The k-th
  iteration draws the k-th number of the random stream \<open>rnd\<close>.
\<close>

fun Take :: "nat \<Rightarrow> int \<Rightarrow> queue \<Rightarrow> (nat \<Rightarrow> nat) \<Rightarrow> fs \<Rightarrow> ((errno + job option) \<times> fs) option" where
  "Take 0 pid qu rnd fs = None"
| "Take (Suc n) pid qu rnd fs =
     (case readdirnames fs (basedir qu @ [''new'']) of
        (names, Some e) \<Rightarrow> Some (Inl e, fs)
      | (names, None) \<Rightarrow>
          if length names = 0 then Some (Inr None, fs)
          else
            (let basename = names ! Intn rnd 0 (length names);
                 d = basedir qu @ mycur pid @ [basename]
             in case os_rename fs (basedir qu @ [''new'', basename]) d of
                  Inl e \<Rightarrow>
                    if IsNotExist e then Take n pid qu (\<lambda>k. rnd (Suc k)) fs
                    else Some (Inl e, fs)
                | Inr fs' \<Rightarrow> Some (Inr (Some \<lparr>Basename = basename, dir = d, q = qu\<rparr>), fs')))"

definition Finish :: "job \<Rightarrow> fs \<Rightarrow> (errno + job) \<times> fs" where
  "Finish j fs = job_rename j (basedir (q j) @ [''done'', Basename j]) fs"

definition Fail :: "job \<Rightarrow> fs \<Rightarrow> (errno + job) \<times> fs" where
  "Fail j fs = job_rename j (basedir (q j) @ [''failed'', Basename j]) fs"

section \<open>Properties of Take\<close>

lemma readdirnames_dir:
  "fs_wf fs \<Longrightarrow> fs_lookup fs d = Some Dir \<Longrightarrow> readdirnames fs d = (children fs d, None)"
  by (simp add: readdirnames_def readdir_def lstat_wf_Some)

lemma readdirnames_None:
  "readdirnames fs d = (names, None) \<Longrightarrow> names = children fs d"
  by (auto simp: readdirnames_def readdir_def split: sum.splits node.splits)

lemma readdirnames_not_dir:
  "fs_wf fs \<Longrightarrow> fs_lookup fs d \<noteq> Some Dir \<Longrightarrow> \<exists>e. readdirnames fs d = ([], Some e)"
  by (cases "fs_lookup fs d")
     (auto simp: readdirnames_def readdir_def lstat_wf_Some lstat_wf split: sum.splits node.splits)

text \<open>
  C28: \<open>Take\<close> on a queue whose \<open>new\<close> directory is empty returns "none
  available" (a nil job and a nil error) and changes nothing.
\<close>

theorem Take_empty:
  assumes "fs_wf fs" "fs_lookup fs (basedir qu @ [''new'']) = Some Dir"
    and "children fs (basedir qu @ [''new'']) = []"
  shows "Take (Suc n) pid qu rnd fs = Some (Inr None, fs)"
  using assms by (simp add: readdirnames_dir)

lemma Take_pick:
  assumes "names \<noteq> []"
  shows "names ! Intn rnd 0 (length names) \<in> set names"
  using assms by (simp add: Intn_def)

text \<open>
  The sequential \<open>Take\<close> returns with one unit of fuel when the worker's owner
  slot and \<open>new\<close> are directories: without another process its rename never
  reports \<open>ENOENT\<close>, so the loop does not repeat.
\<close>

lemma Take_terminates:
  assumes wf: "fs_wf fs" and new: "fs_lookup fs (basedir qu @ [''new'']) = Some Dir"
    and slot: "fs_lookup fs (basedir qu @ mycur pid) = Some Dir"
  shows "\<exists>r. Take (Suc n) pid qu rnd fs = Some r"
proof (cases "children fs (basedir qu @ [''new'']) = []")
  case True
  with wf new have "Take (Suc n) pid qu rnd fs = Some (Inr None, fs)"
    by (simp add: readdirnames_dir)
  then show ?thesis by blast
next
  case False
  let ?names = "children fs (basedir qu @ [''new''])"
  let ?x = "?names ! Intn rnd 0 (length ?names)"
  have "?x \<in> set ?names" using False by (rule Take_pick)
  then have src: "fs_lookup fs (basedir qu @ [''new'', ?x]) \<noteq> None"
    by (simp add: children_iff)
  have "os_rename fs (basedir qu @ [''new'', ?x]) (basedir qu @ mycur pid @ [?x]) \<noteq> Inl ENOENT"
    using wf src slot by (intro os_rename_not_ENOENT) (simp_all add: butlast_append)
  with wf new False show ?thesis
    by (auto simp: readdirnames_dir Let_def IsNotExist_def split: sum.splits)
qed

text \<open>
  When the worker's owner slot \<open>cur/<pid>\<close> is missing, a rename of an existing
  job out of \<open>new\<close> into the slot fails with \<open>ENOENT\<close>, the error
  \<open>Take\<close> reads as a lost race; so no amount of fuel makes \<open>Take\<close> return.
\<close>

lemma rename_into_missing_slot:
  assumes wf: "fs_wf fs" and cur: "fs_lookup fs (basedir qu @ [''cur'']) = Some Dir"
    and noslot: "fs_lookup fs (basedir qu @ mycur pid) = None"
    and src: "fs_lookup fs (basedir qu @ [''new'', x]) \<noteq> None"
  shows "os_rename fs (basedir qu @ [''new'', x]) (basedir qu @ mycur pid @ [x]) = Inl ENOENT"
proof -
  from wf src obtain n' where n': "lstat fs (basedir qu @ [''new'', x]) = Inr n'"
    by (auto simp: lstat_wf)
  have "walk fs [] ((basedir qu @ mycur pid) @ [x]) = Some ENOENT"
    using wf cur noslot by (intro walk_missing_dir) (simp_all add: mycur_def butlast_append)
  then have "walk fs [] (basedir qu @ mycur pid @ [x]) = Some ENOENT" by simp
  then show ?thesis using n' by (simp add: os_rename_def sys_rename_def lstat_def)
qed

lemma Take_livelock:
  assumes wf: "fs_wf fs" and new: "fs_lookup fs (basedir qu @ [''new'']) = Some Dir"
    and work: "children fs (basedir qu @ [''new'']) \<noteq> []"
    and cur: "fs_lookup fs (basedir qu @ [''cur'']) = Some Dir"
    and noslot: "fs_lookup fs (basedir qu @ mycur pid) = None"
  shows "Take n pid qu rnd fs = None"
proof (induction n arbitrary: rnd)
  case 0
  then show ?case by simp
next
  case (Suc n)
  let ?names = "children fs (basedir qu @ [''new''])"
  let ?x = "?names ! Intn rnd 0 (length ?names)"
  have "?x \<in> set ?names" using work by (rule Take_pick)
  then have "fs_lookup fs (basedir qu @ [''new'', ?x]) \<noteq> None"
    by (simp add: children_iff)
  with wf cur noslot
  have "os_rename fs (basedir qu @ [''new'', ?x]) (basedir qu @ mycur pid @ [?x]) = Inl ENOENT"
    by (rule rename_into_missing_slot)
  with wf new work Suc.IH show ?case
    by (simp add: readdirnames_dir Let_def IsNotExist_def)
qed

lemma Take_result:
  "Take n pid qu rnd fs = Some (Inr (Some j), fs') \<Longrightarrow>
   \<exists>x \<in> set (children fs (basedir qu @ [''new''])).
     j = \<lparr>Basename = x, dir = basedir qu @ mycur pid @ [x], q = qu\<rparr> \<and>
     os_rename fs (basedir qu @ [''new'', x]) (basedir qu @ mycur pid @ [x]) = Inr fs'"
proof (induction n arbitrary: rnd)
  case 0
  then show ?case by simp
next
  case (Suc n)
  obtain names err where rd: "readdirnames fs (basedir qu @ [''new'']) = (names, err)"
    by fastforce
  show ?case
  proof (cases err)
    case None
    with rd have names: "names = children fs (basedir qu @ [''new''])"
      by (simp add: readdirnames_None)
    from Suc.prems rd None have ne: "names \<noteq> []"
      by (auto split: if_splits)
    let ?x = "names ! Intn rnd 0 (length names)"
    have mem: "?x \<in> set names" using ne by (rule Take_pick)
    show ?thesis
    proof (cases "os_rename fs (basedir qu @ [''new'', ?x]) (basedir qu @ mycur pid @ [?x])")
      case (Inl e)
      with Suc.prems rd None ne have "Take n pid qu (\<lambda>k. rnd (Suc k)) fs = Some (Inr (Some j), fs')"
        by (auto simp: Let_def split: if_splits)
      then show ?thesis by (rule Suc.IH)
    next
      case (Inr fs1)
      with Suc.prems rd None ne mem names show ?thesis
        by (auto simp: Let_def)
    qed
  next
    case (Some e)
    with Suc.prems rd show ?thesis by simp
  qed
qed

text \<open>
  C1: At most one owner: after a \<open>Take\<close> by one worker returns job \<open>x\<close>, a
  \<open>Take\<close> by any worker on the resulting state never returns a job named \<open>x\<close>.
\<close>

theorem at_most_one_owner:
  assumes wf: "fs_wf fs"
    and t1: "Take n pidA qu rnd fs = Some (Inr (Some j), fs1)"
    and t2: "Take m pidB qu rnd' fs1 = Some (Inr (Some j'), fs2)"
  shows "Basename j' \<noteq> Basename j"
proof -
  from Take_result [OF t1] obtain x where j: "j = \<lparr>Basename = x, dir = basedir qu @ mycur pidA @ [x], q = qu\<rparr>"
    and r: "os_rename fs (basedir qu @ [''new'', x]) (basedir qu @ mycur pidA @ [x]) = Inr fs1"
    by blast
  have "basedir qu @ [''new'', x] \<noteq> basedir qu @ mycur pidA @ [x]"
    by (simp add: mycur_def)
  with wf r have gone: "fs_lookup fs1 (basedir qu @ [''new'', x]) = None"
    by (rule os_rename_src_gone)
  from Take_result [OF t2] obtain y where "y \<in> set (children fs1 (basedir qu @ [''new'']))"
    and j': "j' = \<lparr>Basename = y, dir = basedir qu @ mycur pidB @ [y], q = qu\<rparr>"
    by blast
  then have "fs_lookup fs1 (basedir qu @ [''new'', y]) \<noteq> None" by (simp add: children_iff)
  with gone j j' show ?thesis by auto
qed

section \<open>Opening a queue\<close>

lemma ensuredir_None:
  assumes "ensuredir base d fs = (None, fs')"
  shows "walk fs' [] (base @ d) = None \<and> fs_lookup fs' (base @ d) \<noteq> None \<and>
         (\<exists>ys. fs' = fs @ ys \<and> snd ` set ys \<subseteq> {Dir}) \<and>
         (fs_lookup fs (base @ d) = None \<longrightarrow> fs_lookup fs' (base @ d) = Some Dir)"
  using assms
proof (cases "mkdir fs (base @ d)")
  case (Inl e)
  with assms have "IsExist e" "fs' = fs" by (auto simp: ensuredir_def split: if_splits)
  with Inl show ?thesis
    by (auto simp: mkdir_def IsExist_def dest: walk_Some split: option.splits if_splits
             intro: exI [of _ "[]"])
next
  case (Inr fs1)
  with assms have "fs' = fs1" by (simp add: ensuredir_def)
  with mkdir_Inr [OF Inr] show ?thesis
    by (auto simp: fs_lookup_snoc walk_append intro!: exI [of _ "[(base @ d, Dir)]"])
qed

lemma ensure_all_None:
  "ensure_all base ds fs = (None, fs') \<Longrightarrow>
   (\<exists>ys. fs' = fs @ ys \<and> snd ` set ys \<subseteq> {Dir}) \<and>
   (\<forall>d \<in> set ds. walk fs' [] (base @ d) = None \<and> fs_lookup fs' (base @ d) \<noteq> None \<and>
      (fs_lookup fs (base @ d) = None \<longrightarrow> fs_lookup fs' (base @ d) = Some Dir))"
proof (induction ds arbitrary: fs)
  case Nil
  then show ?case by (auto intro: exI [of _ "[]"])
next
  case (Cons d ds)
  obtain fs1 e1 where r1: "ensuredir base d fs = (e1, fs1)" by fastforce
  with Cons.prems have e1: "ensuredir base d fs = (None, fs1)"
    and e2: "ensure_all base ds fs1 = (None, fs')"
    by (auto split: option.splits)
  note E1 = ensuredir_None [OF e1]
  from E1 obtain ys1 where ys1: "fs1 = fs @ ys1" "snd ` set ys1 \<subseteq> {Dir}"
    by (elim conjE exE) (rule that)
  from E1 have h1: "walk fs1 [] (base @ d) = None" "fs_lookup fs1 (base @ d) \<noteq> None"
        "fs1 = fs @ ys1" "snd ` set ys1 \<subseteq> {Dir}"
        "fs_lookup fs (base @ d) = None \<longrightarrow> fs_lookup fs1 (base @ d) = Some Dir"
    using ys1 by simp_all
  from Cons.IH [OF e2] obtain ys2 where
    h2: "fs' = fs1 @ ys2" "snd ` set ys2 \<subseteq> {Dir}"
        "\<forall>d \<in> set ds. walk fs' [] (base @ d) = None \<and> fs_lookup fs' (base @ d) \<noteq> None \<and>
           (fs_lookup fs1 (base @ d) = None \<longrightarrow> fs_lookup fs' (base @ d) = Some Dir)" by blast
  have ext: "\<exists>ys. fs' = fs @ ys \<and> snd ` set ys \<subseteq> {Dir}"
    using h1(3,4) h2(1,2) by (intro exI [of _ "ys1 @ ys2"]) auto
  note dirs = map_of_all_dirs
  have keep: "fs_lookup fs' k = fs_lookup fs1 k" if "fs_lookup fs1 k \<noteq> None" for k
    using that h2(1) by (auto simp: fs_lookup_append)
  have fresh: "fs_lookup fs' k = Some Dir"
    if "fs_lookup fs k = None" "fs_lookup fs' k \<noteq> None" for k
  proof -
    have "fs_lookup fs1 k = None \<or> fs_lookup fs1 k = Some Dir"
      using that(1) h1(3) dirs [OF h1(4), of k] by (simp add: fs_lookup_append)
    then show ?thesis
      using that(2) h2(1) dirs [OF h2(2), of k] by (auto simp: fs_lookup_append)
  qed
  have "walk fs' [] (base @ d) = None" using h1(1) h2(1) by (simp add: walk_append)
  moreover have "fs_lookup fs' (base @ d) \<noteq> None" using h1(2) keep by simp
  ultimately show ?case
    using ext h2(3) fresh by auto
qed

lemma ensure_all_present:
  "\<forall>d \<in> set ds. walk fs [] (base @ d) = None \<and> fs_lookup fs (base @ d) \<noteq> None \<Longrightarrow>
   ensure_all base ds fs = (None, fs)"
proof (induction ds)
  case Nil
  then show ?case by simp
next
  case (Cons d ds)
  then have "ensuredir base d fs = (None, fs)" by (simp add: ensuredir_def mkdir_def IsExist_def)
  with Cons show ?case by simp
qed

lemma fs_wf_ensure_all [wf_intros]: "fs_wf fs \<Longrightarrow> ensure_all base ds fs = (e, fs') \<Longrightarrow> fs_wf fs'"
proof (induction ds arbitrary: fs)
  case Nil
  then show ?case by simp
next
  case (Cons d ds)
  obtain e1 fs1 where r1: "ensuredir base d fs = (e1, fs1)" by fastforce
  have wf1: "fs_wf fs1"
    using r1 Cons.prems(1) by (auto simp: ensuredir_def split: sum.splits if_splits intro: fs_wf_mkdir)
  show ?case
  proof (cases e1)
    case None
    with Cons.prems(2) r1 have "ensure_all base ds fs1 = (e, fs')" by simp
    with wf1 show ?thesis by (rule Cons.IH)
  next
    case (Some x)
    with Cons.prems(2) r1 wf1 show ?thesis by simp
  qed
qed

lemma OpenQueue_Inr:
  "OpenQueue pid d fs = (Inr qu, fs') \<Longrightarrow> qu = \<lparr>basedir = d, mycurdir = []\<rparr> \<and> ensure_all d (queue_subdirs pid) fs = (None, fs')"
  by (auto simp: OpenQueue_def split: prod.splits option.splits)

text \<open>
  C12: Opening is idempotent: a second \<open>OpenQueue\<close> of the same directory on the
  state the first one produced succeeds with the same queue and changes nothing.
\<close>

theorem OpenQueue_idempotent:
  assumes "OpenQueue pid d fs = (Inr qu, fs')"
  shows "OpenQueue pid d fs' = (Inr qu, fs')"
proof -
  from OpenQueue_Inr [OF assms] have qu: "qu = \<lparr>basedir = d, mycurdir = []\<rparr>"
    and e: "ensure_all d (queue_subdirs pid) fs = (None, fs')" by auto
  from conjunct2 [OF ensure_all_None [OF e]]
  have "\<forall>s \<in> set (queue_subdirs pid). walk fs' [] (d @ s) = None \<and> fs_lookup fs' (d @ s) \<noteq> None"
    by simp
  then have "ensure_all d (queue_subdirs pid) fs' = (None, fs')" by (rule ensure_all_present)
  with qu show ?thesis by (simp add: OpenQueue_def)
qed

text \<open>
  C13: After a successful \<open>OpenQueue\<close> on a well-formed tree in which none of
  \<open>tmp\<close>, \<open>new\<close>, \<open>cur\<close>, \<open>done\<close>, \<open>failed\<close>, \<open>cur/<pid>\<close> exists as
  anything but a directory, all six are directories, the tree is well-formed,
  nothing that existed was changed (the new state extends the old), and the
  queue's base is the directory given.
\<close>

theorem OpenQueue_subdirs:
  assumes wf: "fs_wf fs"
    and nofile: "\<forall>s \<in> set (queue_subdirs pid). fs_lookup fs (d @ s) \<noteq> None \<longrightarrow> fs_lookup fs (d @ s) = Some Dir"
    and res: "OpenQueue pid d fs = (Inr qu, fs')"
  shows "fs_wf fs' \<and> basedir qu = d \<and> (\<exists>ys. fs' = fs @ ys) \<and>
         (\<forall>s \<in> set (queue_subdirs pid). fs_lookup fs' (d @ s) = Some Dir)"
proof -
  from OpenQueue_Inr [OF res] have qu: "qu = \<lparr>basedir = d, mycurdir = []\<rparr>"
    and e: "ensure_all d (queue_subdirs pid) fs = (None, fs')" by auto
  note E = ensure_all_None [OF e]
  from E obtain ys where ys: "fs' = fs @ ys" by blast
  have keep: "fs_lookup fs' k = fs_lookup fs k" if "fs_lookup fs k \<noteq> None" for k
    using that ys by (auto simp: fs_lookup_append)
  have "fs_lookup fs' (d @ s) = Some Dir" if s: "s \<in> set (queue_subdirs pid)" for s
  proof (cases "fs_lookup fs (d @ s)")
    case None
    with E s show ?thesis by blast
  next
    case (Some v)
    with nofile keep s show ?thesis by auto
  qed
  moreover have "fs_wf fs'" using wf e by (rule fs_wf_ensure_all)
  ultimately show ?thesis using qu ys by auto
qed

text \<open>
  C15: Opening a directory that does not exist (in an existing parent) fails with
  \<open>ENOENT\<close>, the error \<open>os.IsNotExist\<close> recognises, and changes nothing.
\<close>

theorem OpenQueue_missing_base:
  assumes wf: "fs_wf fs" and par: "fs_lookup fs (butlast d) = Some Dir" and gone: "fs_lookup fs d = None"
  shows "OpenQueue pid d fs = (Inl ENOENT, fs)"
proof -
  have "walk fs [] (d @ [''tmp'']) = Some ENOENT" using wf par gone by (rule walk_missing_dir)
  then have "ensuredir d [''tmp''] fs = (Some ENOENT, fs)"
    by (simp add: ensuredir_def mkdir_def IsExist_def)
  then show ?thesis by (simp add: OpenQueue_def queue_subdirs_def)
qed

text \<open>\<open>ensuredir\<close> succeeds whenever the parent is a directory: it creates the
  directory, or finds the name taken by a node of any kind and reports success.\<close>

lemma ensuredir_ok:
  assumes wf: "fs_wf fs" and par: "fs_lookup fs (butlast (base @ d)) = Some Dir"
  shows "\<exists>fs'. ensuredir base d fs = (None, fs') \<and> fs_wf fs' \<and> fs_lookup fs' (base @ d) \<noteq> None \<and>
    (\<forall>k. fs_lookup fs' k = fs_lookup fs k \<or> (k = base @ d \<and> fs_lookup fs k = None \<and> fs_lookup fs' k = Some Dir))"
proof -
  have w: "walk fs [] (base @ d) = None" using wf par by (simp add: walk_wf)
  show ?thesis
  proof (cases "fs_lookup fs (base @ d)")
    case None
    with w have m: "mkdir fs (base @ d) = Inr (fs @ [(base @ d, Dir)])" by (simp add: mkdir_def)
    have "fs_wf (fs @ [(base @ d, Dir)])" using wf m by (rule fs_wf_mkdir)
    with m None show ?thesis by (auto simp: ensuredir_def fs_lookup_snoc)
  next
    case (Some n)
    with w wf show ?thesis by (simp add: ensuredir_def mkdir_def IsExist_def)
  qed
qed

text \<open>
  C14: \<open>OpenQueue\<close> accepts a regular file as \<open>new\<close>. On any well-formed tree
  whose base is a directory, whose \<open>new\<close> is a file and whose \<open>cur\<close> is not
  a file, \<open>OpenQueue\<close> succeeds, because \<open>ensuredir\<close> takes the \<open>EEXIST\<close>
  of the file for an existing directory; \<open>new\<close> is still the file, and every
  \<open>Take\<close> on the opened queue fails with \<open>ENOTDIR\<close>. The spec's promise
  that the subdirectories exist after opening does not hold.
\<close>

theorem OpenQueue_accepts_file:
  assumes wf: "fs_wf fs" and base: "fs_lookup fs d = Some Dir"
    and nf: "fs_lookup fs (d @ [''new'']) = Some (File c)"
    and cur: "fs_lookup fs (d @ [''cur'']) \<noteq> None \<longrightarrow> fs_lookup fs (d @ [''cur'']) = Some Dir"
  shows "\<exists>qu fs'. OpenQueue pid d fs = (Inr qu, fs') \<and> fs_lookup fs' (d @ [''new'']) = Some (File c) \<and>
    Take (Suc n) pid qu rnd fs' = Some (Inl ENOTDIR, fs')"
proof -
  from ensuredir_ok [OF wf, of d "[''tmp'']"] base obtain fs1 where
    e1: "ensuredir d [''tmp''] fs = (None, fs1)" and w1: "fs_wf fs1"
    and k1: "\<forall>k. fs_lookup fs1 k = fs_lookup fs k \<or> (k = d @ [''tmp''] \<and> fs_lookup fs k = None \<and> fs_lookup fs1 k = Some Dir)"
    by auto
  have b1: "fs_lookup fs1 d = Some Dir" using k1 base by metis
  from ensuredir_ok [OF w1, of d "[''new'']"] b1 obtain fs2 where
    e2: "ensuredir d [''new''] fs1 = (None, fs2)" and w2: "fs_wf fs2"
    and k2: "\<forall>k. fs_lookup fs2 k = fs_lookup fs1 k \<or> (k = d @ [''new''] \<and> fs_lookup fs1 k = None \<and> fs_lookup fs2 k = Some Dir)"
    by auto
  have b2: "fs_lookup fs2 d = Some Dir" using k2 b1 by metis
  from ensuredir_ok [OF w2, of d "[''cur'']"] b2 obtain fs3 where
    e3: "ensuredir d [''cur''] fs2 = (None, fs3)" and w3: "fs_wf fs3" and n3: "fs_lookup fs3 (d @ [''cur'']) \<noteq> None"
    and k3: "\<forall>k. fs_lookup fs3 k = fs_lookup fs2 k \<or> (k = d @ [''cur''] \<and> fs_lookup fs2 k = None \<and> fs_lookup fs3 k = Some Dir)"
    by auto
  have b3: "fs_lookup fs3 d = Some Dir" using k3 b2 by metis
  from ensuredir_ok [OF w3, of d "[''done'']"] b3 obtain fs4 where
    e4: "ensuredir d [''done''] fs3 = (None, fs4)" and w4: "fs_wf fs4"
    and k4: "\<forall>k. fs_lookup fs4 k = fs_lookup fs3 k \<or> (k = d @ [''done''] \<and> fs_lookup fs3 k = None \<and> fs_lookup fs4 k = Some Dir)"
    by auto
  have b4: "fs_lookup fs4 d = Some Dir" using k4 b3 by metis
  from ensuredir_ok [OF w4, of d "[''failed'']"] b4 obtain fs5 where
    e5: "ensuredir d [''failed''] fs4 = (None, fs5)" and w5: "fs_wf fs5"
    and k5: "\<forall>k. fs_lookup fs5 k = fs_lookup fs4 k \<or> (k = d @ [''failed''] \<and> fs_lookup fs4 k = None \<and> fs_lookup fs5 k = Some Dir)"
    by auto
  have c2: "fs_lookup fs2 (d @ [''cur'']) = fs_lookup fs (d @ [''cur''])"
    using k1 [rule_format, of "d @ [''cur'']"] k2 [rule_format, of "d @ [''cur'']"] by auto
  have c3: "fs_lookup fs3 (d @ [''cur'']) = Some Dir"
    using k3 [rule_format, of "d @ [''cur'']"] c2 cur n3 by auto
  have c5: "fs_lookup fs5 (d @ [''cur'']) = Some Dir"
    using k4 [rule_format, of "d @ [''cur'']"] k5 [rule_format, of "d @ [''cur'']"] c3 by auto
  from ensuredir_ok [OF w5, of d "mycur pid"] c5 obtain fs6 where
    e6: "ensuredir d (mycur pid) fs5 = (None, fs6)" and w6: "fs_wf fs6"
    and k6: "\<forall>k. fs_lookup fs6 k = fs_lookup fs5 k \<or> (k = d @ mycur pid \<and> fs_lookup fs5 k = None \<and> fs_lookup fs6 k = Some Dir)"
    by (auto simp: mycur_def butlast_append)
  have o: "OpenQueue pid d fs = (Inr \<lparr>basedir = d, mycurdir = []\<rparr>, fs6)"
    using e1 e2 e3 e4 e5 e6 by (simp add: OpenQueue_def queue_subdirs_def)
  have f6: "fs_lookup fs6 (d @ [''new'']) = Some (File c)"
    using nf k1 [rule_format, of "d @ [''new'']"] k2 [rule_format, of "d @ [''new'']"]
      k3 [rule_format, of "d @ [''new'']"] k4 [rule_format, of "d @ [''new'']"]
      k5 [rule_format, of "d @ [''new'']"] k6 [rule_format, of "d @ [''new'']"]
    by (auto simp: mycur_def)
  then have "readdirnames fs6 (d @ [''new'']) = ([], Some ENOTDIR)"
    using w6 by (simp add: readdirnames_def readdir_def lstat_wf_Some)
  then have "Take (Suc n) pid \<lparr>basedir = d, mycurdir = []\<rparr> rnd fs6 = Some (Inl ENOTDIR, fs6)" by simp
  with o f6 show ?thesis by blast
qed

section \<open>Finishing a job\<close>

lemma job_rename_Inr:
  "job_rename j d fs = (Inr j', fs') \<Longrightarrow> j' = j\<lparr>dir := d\<rparr> \<and> os_rename fs (dir j) d = Inr fs'"
  by (auto simp: job_rename_def split: sum.splits)

lemma job_rename_Inl:
  "job_rename j d fs = (Inl e, fs') \<Longrightarrow> fs' = fs \<and> os_rename fs (dir j) d = Inl e"
  by (auto simp: job_rename_def split: sum.splits)

text \<open>
  C25: \<open>Finish\<close> of a job whose name is free in \<open>done\<close> succeeds: the handle's
  directory becomes \<open>done/<Basename>\<close>, the whole job with its properties is
  found there, nothing is left at the old place, and the tree stays
  well-formed.
\<close>

theorem Finish_moves:
  assumes wf: "fs_wf fs" and jd: "fs_lookup fs (dir j) = Some Dir" and ne: "dir j \<noteq> []"
    and dd: "fs_lookup fs (basedir (q j) @ [''done'']) = Some Dir"
    and fresh: "fs_lookup fs (basedir (q j) @ [''done'', Basename j]) = None"
    and np: "\<not> prefix (dir j) (basedir (q j) @ [''done''])"
  shows "\<exists>fs'. Finish j fs = (Inr (j\<lparr>dir := basedir (q j) @ [''done'', Basename j]\<rparr>), fs') \<and> fs_wf fs' \<and>
    (\<forall>r. fs_lookup fs' (basedir (q j) @ [''done'', Basename j] @ r) = fs_lookup fs (dir j @ r)) \<and>
    fs_lookup fs' (dir j) = None"
proof -
  let ?d = "basedir (q j) @ [''done'', Basename j]"
  have "dir j \<noteq> ?d" using jd fresh by auto
  then have np': "\<not> prefix (dir j) ?d" using np
    by (metis append_Cons append_Nil append_assoc prefix_snoc)
  have r: "os_rename fs (dir j) ?d = Inr (move fs (dir j) ?d)"
    using wf jd ne dd fresh np' by (intro os_rename_fresh) (simp_all add: butlast_append)
  let ?fs' = "move fs (dir j) ?d"
  have "fs_wf ?fs'" using wf r by (rule fs_wf_os_rename)
  moreover have "fs_lookup ?fs' (?d @ r) = fs_lookup fs (dir j @ r)" for r
    by (simp add: fs_lookup_move)
  moreover have "fs_lookup ?fs' (dir j) = None"
    using wf r \<open>dir j \<noteq> ?d\<close> by (rule os_rename_src_gone)
  ultimately show ?thesis using r by (simp add: Finish_def job_rename_def)
qed

text \<open>
  C26: Finishing a job twice through the updated handle is rejected: the second
  \<open>Finish\<close> fails with \<open>EEXIST\<close> (Go's \<open>os.Rename\<close> refuses an existing
  directory as target, here the job itself) and changes nothing.
\<close>

theorem Finish_twice:
  assumes wf: "fs_wf fs" and jd: "fs_lookup fs (dir j) = Some Dir"
    and first: "Finish j fs = (Inr j', fs')"
  shows "Finish j' fs' = (Inl EEXIST, fs')"
proof -
  let ?d = "basedir (q j) @ [''done'', Basename j]"
  from job_rename_Inr [OF first [unfolded Finish_def]]
  have j': "j' = j\<lparr>dir := ?d\<rparr>" and r: "os_rename fs (dir j) ?d = Inr fs'" by auto
  have wf': "fs_wf fs'" using wf r by (rule fs_wf_os_rename)
  have "fs_lookup fs' ?d = Some Dir" using os_rename_dst [OF r] jd by simp
  then have "lstat fs' ?d = Inr Dir" using wf' by (simp add: lstat_wf_Some)
  then show ?thesis using j' by (simp add: Finish_def job_rename_def os_rename_def)
qed

text \<open>
  C27: \<open>Finish\<close> of a job that is no longer where its handle says (for example
  rescued and taken by another worker) fails with \<open>ENOENT\<close> and changes nothing.
\<close>

theorem Finish_vanished:
  assumes wf: "fs_wf fs" and par: "fs_lookup fs (butlast (dir j)) = Some Dir" and ne: "dir j \<noteq> []"
    and gone: "fs_lookup fs (dir j) = None"
  shows "Finish j fs = (Inl ENOENT, fs)"
  using os_rename_src_missing [OF wf par ne gone] by (simp add: Finish_def job_rename_def)

section \<open>Owner slot names\<close>

text \<open>
  C18: The owner slot a worker creates is named so that the sweep reads its
  process id back: \<open>getWorkerDir\<close> is the base followed by \<open>mycur\<close>, and
  \<open>strconv.Atoi\<close> of the slot's name is the process id, for every id in the
  range of Go's 64-bit \<open>int\<close>.
\<close>

theorem slot_name_roundtrip:
  assumes "- (2 ^ 63) \<le> pid" "pid < 2 ^ 63"
  shows "getWorkerDir qu pid = basedir qu @ mycur pid \<and> Atoi (last (mycur pid)) = Some pid"
  using Atoi_Itoa [OF assms] by (simp add: getWorkerDir_def mycur_def)

end
