(* ===== verification/Rescue.thy ===== *)
theory Rescue
  imports Queue
begin

text \<open>
  The dead-worker sweep of \<open>src/pqueue/pqueue.go\<close>: \<open>RescueDeadJobs\<close> lists
  \<open>cur\<close>, reads each entry as a process id with \<open>strconv.Atoi\<close>, probes it with
  \<open>processExists\<close> (\<open>kill(pid, 0)\<close>, an oracle here), and for a process that is
  gone moves every job of its slot back to \<open>new\<close> (\<open>rescueDeadJobsFrom\<close>) and
  removes the slot. Errors of single entries are logged and skipped; the events
  are returned in the order the code prints them.
\<close>

section \<open>Operations\<close>

definition processExists :: "procs \<Rightarrow> int \<Rightarrow> (bool \<times> errno option) \<times> log_event list" where
  "processExists ps pid =
     (case ps pid of
        None \<Rightarrow> ((True, None), [])
      | Some e \<Rightarrow> if e = ESRCH then ((False, None), []) else ((False, Some e), [KillFailed pid e]))"

text \<open>The loop of \<open>rescueDeadJobsFrom\<close> over the names of one slot \<open>d\<close>.\<close>

fun reschedule :: "queue \<Rightarrow> int \<Rightarrow> path \<Rightarrow> name list \<Rightarrow> fs \<Rightarrow> fs \<times> log_event list" where
  "reschedule qu pid d [] fs = (fs, [])"
| "reschedule qu pid d (s # ss) fs =
     (case os_rename fs (d @ [s]) (getNewDir qu @ [s]) of
        Inl e \<Rightarrow> (let (fs', lg) = reschedule qu pid d ss fs in (fs', RescheduleFailed s pid e # lg))
      | Inr fs1 \<Rightarrow> (let (fs', lg) = reschedule qu pid d ss fs1 in (fs', Rescheduled s pid # lg)))"

definition rescueDeadJobsFrom :: "queue \<Rightarrow> int \<Rightarrow> fs \<Rightarrow> fs \<times> log_event list" where
  "rescueDeadJobsFrom qu pid fs =
     (let d = getWorkerDir qu pid;
          (names, err) = readdirnames fs d;
          lg0 = (case err of None \<Rightarrow> [] | Some _ \<Rightarrow> [CouldNotReadWorker pid d]);
          (fs', lg) = reschedule qu pid d names fs
      in (fs', lg0 @ lg))"

text \<open>The loop of \<open>RescueDeadJobs\<close> over the entries of \<open>cur\<close>.\<close>

fun rescue_owners :: "queue \<Rightarrow> procs \<Rightarrow> name list \<Rightarrow> fs \<Rightarrow> fs \<times> log_event list" where
  "rescue_owners qu ps [] fs = (fs, [])"
| "rescue_owners qu ps (s # ss) fs =
     (case Atoi s of
        None \<Rightarrow> (let (fs', lg) = rescue_owners qu ps ss fs in (fs', NotAPid s # lg))
      | Some pid \<Rightarrow>
          (case processExists ps pid of
             ((_, Some e), lgk) \<Rightarrow>
               (let (fs', lg) = rescue_owners qu ps ss fs in (fs', lgk @ KillFailed pid e # lg))
           | ((True, None), lgk) \<Rightarrow>
               (let (fs', lg) = rescue_owners qu ps ss fs in (fs', lgk @ lg))
           | ((False, None), lgk) \<Rightarrow>
               (let (fs1, lg1) = rescueDeadJobsFrom qu pid fs;
                    (fs2, lg2) = (case remove fs1 (getWorkerDir qu pid) of
                                    Inl e \<Rightarrow> (fs1, [RmdirFailed (getWorkerDir qu pid) e])
                                  | Inr fs' \<Rightarrow> (fs', []));
                    (fs3, lg3) = rescue_owners qu ps ss fs2
                in (fs3, lgk @ ProcessGone pid # lg1 @ lg2 @ lg3))))"

definition RescueDeadJobs :: "queue \<Rightarrow> procs \<Rightarrow> fs \<Rightarrow> (errno option \<times> fs) \<times> log_event list" where
  "RescueDeadJobs qu ps fs =
     (let curdir = getCurDir qu
      in case readdirnames fs curdir of
           (names, Some e) \<Rightarrow> ((Some e, fs), [CouldNotRescue curdir])
         | (names, None) \<Rightarrow> (let (fs', lg) = rescue_owners qu ps names fs in ((None, fs'), lg)))"

text \<open>
  The state the loop over \<open>cur\<close> keeps, relative to the tree \<open>fs0\<close> it started
  from, once it has handled the dead process ids \<open>P\<close>: each of their slots is
  gone, the jobs that were in it are in \<open>new\<close>, and nothing else has changed.
\<close>

definition sweep_inv :: "queue \<Rightarrow> procs \<Rightarrow> fs \<Rightarrow> int set \<Rightarrow> fs \<Rightarrow> bool" where
  "sweep_inv qu ps fs0 P fs \<longleftrightarrow> fs_wf fs \<and>
     (\<forall>p\<in>P. ps p = Some ESRCH \<and> - (2 ^ 63) \<le> p \<and> p < 2 ^ 63 \<and>
        fs_lookup fs (getWorkerDir qu p) = None \<and>
        (\<forall>n\<in>set (children fs0 (getWorkerDir qu p)). \<forall>r.
           fs_lookup fs (getNewDir qu @ [n] @ r) = fs_lookup fs0 (getWorkerDir qu p @ [n] @ r))) \<and>
     (\<forall>k. (\<forall>p\<in>P. \<not> prefix (getWorkerDir qu p) k \<and>
              (\<forall>n\<in>set (children fs0 (getWorkerDir qu p)). \<not> prefix (getNewDir qu @ [n]) k)) \<longrightarrow>
          fs_lookup fs k = fs_lookup fs0 k)"


section \<open>Frame and movement lemmas\<close>

lemma reschedule_frame:
  "reschedule qu pid d ns fs = (fs', lg) \<Longrightarrow>
   (\<forall>n \<in> set ns. \<not> prefix (d @ [n]) p \<and> \<not> prefix (getNewDir qu @ [n]) p) \<Longrightarrow>
   fs_lookup fs' p = fs_lookup fs p"
proof (induction ns arbitrary: fs lg)
  case Nil
  then show ?case by simp
next
  case (Cons s ss)
  show ?case
  proof (cases "os_rename fs (d @ [s]) (getNewDir qu @ [s])")
    case (Inl e)
    with Cons.prems obtain lg' where r: "reschedule qu pid d ss fs = (fs', lg')"
      by (auto split: prod.splits)
    from Cons.prems(2) have "\<forall>n \<in> set ss. \<not> prefix (d @ [n]) p \<and> \<not> prefix (getNewDir qu @ [n]) p"
      by simp
    with r show ?thesis by (rule Cons.IH)
  next
    case (Inr fs1)
    with Cons.prems obtain lg' where r: "reschedule qu pid d ss fs1 = (fs', lg')"
      by (auto split: prod.splits)
    from Inr Cons.prems(2) have "fs_lookup fs1 p = fs_lookup fs p"
      by (simp add: os_rename_frame)
    moreover from Cons.prems(2) have "\<forall>n \<in> set ss. \<not> prefix (d @ [n]) p \<and> \<not> prefix (getNewDir qu @ [n]) p"
      by simp
    ultimately show ?thesis using Cons.IH [OF r] by simp
  qed
qed

lemma rescueDeadJobsFrom_frame:
  "rescueDeadJobsFrom qu pid fs = (fs', lg) \<Longrightarrow>
   (\<forall>n. \<not> prefix (getWorkerDir qu pid @ [n]) p \<and> \<not> prefix (getNewDir qu @ [n]) p) \<Longrightarrow>
   fs_lookup fs' p = fs_lookup fs p"
  by (auto simp: rescueDeadJobsFrom_def Let_def split: prod.splits intro: reschedule_frame)

text \<open>Whatever the sweep changes lies below a slot it found dead, or is a job it put into \<open>new\<close>.\<close>

lemma rescue_owners_frame:
  assumes "rescue_owners qu ps names fs = (fs', lg)"
    and "\<forall>s \<in> set names. \<forall>pid. Atoi s = Some pid \<longrightarrow> ps pid = Some ESRCH \<longrightarrow>
           p \<noteq> getWorkerDir qu pid \<and> (\<forall>n. \<not> prefix (getWorkerDir qu pid @ [n]) p)"
    and "\<forall>n. \<not> prefix (getNewDir qu @ [n]) p"
  shows "fs_lookup fs' p = fs_lookup fs p"
  using assms
proof (induction names arbitrary: fs lg)
  case Nil
  then show ?case by simp
next
  case (Cons s ss)
  show ?case
  proof (cases "Atoi s")
    case None
    with Cons show ?thesis by (auto split: prod.splits)
  next
    case (Some pid)
    show ?thesis
    proof (cases "ps pid")
      case None
      with Cons Some show ?thesis by (auto simp: processExists_def split: prod.splits)
    next
      case (Some e)
      show ?thesis
      proof (cases "e = ESRCH")
        case False
        with Cons \<open>Atoi s = Some pid\<close> Some show ?thesis
          by (auto simp: processExists_def split: prod.splits)
      next
        case True
        obtain fs1 lg1 where r1: "rescueDeadJobsFrom qu pid fs = (fs1, lg1)" by fastforce
        obtain fs2 lg2 where r2: "(case remove fs1 (getWorkerDir qu pid) of
              Inl e \<Rightarrow> (fs1, [RmdirFailed (getWorkerDir qu pid) e]) | Inr fs' \<Rightarrow> (fs', [])) = (fs2, lg2)"
          by fastforce
        obtain lg3 where r3: "rescue_owners qu ps ss fs2 = (fs', lg3)"
          using Cons.prems(1) \<open>Atoi s = Some pid\<close> Some True r1 r2
          by (auto simp: processExists_def split: prod.splits)
        from Cons.prems(2) \<open>Atoi s = Some pid\<close> Some True
        have here: "p \<noteq> getWorkerDir qu pid" "\<forall>n. \<not> prefix (getWorkerDir qu pid @ [n]) p" by auto
        from r1 here(2) Cons.prems(3) have "fs_lookup fs1 p = fs_lookup fs p"
          by (blast intro: rescueDeadJobsFrom_frame)
        moreover from r2 here(1) have "fs_lookup fs2 p = fs_lookup fs1 p"
          by (auto split: sum.splits dest: remove_frame)
        moreover from Cons.IH [OF r3] Cons.prems(2,3) have "fs_lookup fs' p = fs_lookup fs2 p"
          by simp
        ultimately show ?thesis by simp
      qed
    qed
  qed
qed

lemma worker_new_parallel: "getWorkerDir qu pid \<parallel> getNewDir qu"
  by (auto simp: getWorkerDir_def getNewDir_def)

lemma reschedule_moves:
  assumes "fs_wf fs" and "distinct ns"
    and "\<forall>n\<in>set ns. fs_lookup fs (d @ [n]) \<noteq> None"
    and "\<forall>n\<in>set ns. fs_lookup fs (getNewDir qu @ [n]) = None"
    and "fs_lookup fs (getNewDir qu) = Some Dir"
    and par: "d \<parallel> getNewDir qu"
    and "reschedule qu pid d ns fs = (fs', lg)"
  shows "fs_wf fs' \<and> lg = map (\<lambda>n. Rescheduled n pid) ns \<and>
     (\<forall>n\<in>set ns. \<forall>r. fs_lookup fs' (getNewDir qu @ [n] @ r) = fs_lookup fs (d @ [n] @ r) \<and>
                       fs_lookup fs' (d @ [n] @ r) = None)"
  using assms
proof (induction ns arbitrary: fs lg)
  case Nil
  then show ?case by simp
next
  case (Cons n ns)
  let ?N = "getNewDir qu"
  have dne: "d \<noteq> []" using par by auto
  have np: "\<not> prefix (d @ [n]) (?N @ [n])" using par by (rule parallel_no_prefix)
  from Cons.prems have mv: "os_rename fs (d @ [n]) (?N @ [n]) = Inr (move fs (d @ [n]) (?N @ [n]))"
    using dne np by (intro os_rename_fresh) simp_all
  let ?fs1 = "move fs (d @ [n]) (?N @ [n])"
  from Cons.prems(7) mv obtain lg' where r: "reschedule qu pid d ns ?fs1 = (fs', lg')"
    and lg: "lg = Rescheduled n pid # lg'"
    by (auto split: prod.splits)
  have wf1: "fs_wf ?fs1" using Cons.prems(1) mv by (rule fs_wf_os_rename)
  have pn: "\<not> prefix (?N @ ys) (d @ xs)" "\<not> prefix (d @ ys) (?N @ xs)" for xs ys
    using par parallel_no_prefix parallel_commute by blast+
  have pn0: "\<not> prefix (?N @ [n]) d" "\<not> prefix (d @ [n]) ?N"
    using pn [of "[n]" "[]"] by simp_all
  from Cons.prems(2) have nn: "n \<notin> set ns" "distinct ns" by auto
  have keep: "fs_lookup ?fs1 (d @ [m]) = fs_lookup fs (d @ [m])"
    "fs_lookup ?fs1 (?N @ [m]) = fs_lookup fs (?N @ [m])" if "m \<in> set ns" for m
    using that nn pn pn0 by (auto simp: fs_lookup_move)
  have N1: "fs_lookup ?fs1 ?N = Some Dir"
    using Cons.prems(5) pn0 by (auto simp: fs_lookup_move)
  from Cons.IH [OF wf1 nn(2) _ _ N1 par r] Cons.prems(3,4) keep
  have IH: "fs_wf fs' \<and> lg' = map (\<lambda>n. Rescheduled n pid) ns \<and>
     (\<forall>m\<in>set ns. \<forall>r. fs_lookup fs' (?N @ [m] @ r) = fs_lookup ?fs1 (d @ [m] @ r) \<and>
                       fs_lookup fs' (d @ [m] @ r) = None)"
    by simp
  have frame: "fs_lookup fs' p = fs_lookup ?fs1 p"
    if "\<forall>m\<in>set ns. \<not> prefix (d @ [m]) p \<and> \<not> prefix (?N @ [m]) p" for p
    using r that by (rule reschedule_frame)
  have here: "fs_lookup fs' (?N @ [n] @ r) = fs_lookup fs (d @ [n] @ r) \<and> fs_lookup fs' (d @ [n] @ r) = None" for r
  proof -
    have "\<forall>m\<in>set ns. \<not> prefix (d @ [m]) (?N @ [n] @ r) \<and> \<not> prefix (?N @ [m]) (?N @ [n] @ r)"
      using nn(1) pn by auto
    moreover have "\<forall>m\<in>set ns. \<not> prefix (d @ [m]) (d @ [n] @ r) \<and> \<not> prefix (?N @ [m]) (d @ [n] @ r)"
      using nn(1) pn by auto
    ultimately show ?thesis using frame pn by (simp add: fs_lookup_move)
  qed
  have old: "fs_lookup ?fs1 (d @ [m] @ r) = fs_lookup fs (d @ [m] @ r)" if "m \<in> set ns" for m r
    using that nn pn pn0 by (auto simp: fs_lookup_move)
  show ?case using IH here old lg by auto
qed

lemma rescue_owners_append:
  "rescue_owners qu ps xs fs = (fs1, lg1) \<Longrightarrow> rescue_owners qu ps ys fs1 = (fs2, lg2) \<Longrightarrow>
   rescue_owners qu ps (xs @ ys) fs = (fs2, lg1 @ lg2)"
proof (induction xs arbitrary: fs lg1)
  case Nil
  then show ?case by simp
next
  case (Cons s ss)
  then show ?case
    by (auto simp: processExists_def split: option.splits prod.splits if_splits bool.splits sum.splits)
qed

lemma rescue_owners_spare:
  "\<forall>s\<in>set xs. \<forall>p. Atoi s = Some p \<longrightarrow> ps p \<noteq> Some ESRCH \<Longrightarrow> fst (rescue_owners qu ps xs fs) = fs"
proof (induction xs)
  case Nil
  then show ?case by simp
next
  case (Cons s ss)
  then show ?case
    by (auto simp: processExists_def split: option.splits prod.splits if_splits)
qed

lemma worker_dir_child: "getWorkerDir qu pid = getCurDir qu @ [Itoa pid]"
  by (simp add: getWorkerDir_def getCurDir_def)

text \<open>One dead slot: its jobs go to \<open>new\<close> and the emptied slot is removed.\<close>

lemma rescue_one_dead:
  assumes wf: "fs_wf fs" and new: "fs_lookup fs (getNewDir qu) = Some Dir"
    and slot: "fs_lookup fs (getWorkerDir qu pid) = Some Dir"
    and dead: "ps pid = Some ESRCH" and atoi: "Atoi s = Some pid"
    and fresh: "\<forall>n \<in> set (children fs (getWorkerDir qu pid)). fs_lookup fs (getNewDir qu @ [n]) = None"
    and res: "rescue_owners qu ps [s] fs = (fs', lg)"
  shows "fs_wf fs' \<and> fs_lookup fs' (getWorkerDir qu pid) = None \<and>
    (\<forall>n \<in> set (children fs (getWorkerDir qu pid)). \<forall>r.
       fs_lookup fs' (getNewDir qu @ [n] @ r) = fs_lookup fs (getWorkerDir qu pid @ [n] @ r)) \<and>
    (\<forall>p. \<not> prefix (getWorkerDir qu pid) p \<and>
         (\<forall>n \<in> set (children fs (getWorkerDir qu pid)). \<not> prefix (getNewDir qu @ [n]) p) \<longrightarrow>
         fs_lookup fs' p = fs_lookup fs p)"
proof -
  let ?d = "getWorkerDir qu pid" and ?N = "getNewDir qu"
  let ?ns = "children fs ?d"
  obtain fsR lgR where rr: "reschedule qu pid ?d ?ns fs = (fsR, lgR)" by fastforce
  have from_: "rescueDeadJobsFrom qu pid fs = (fsR, lgR)"
    using rr wf slot by (simp add: rescueDeadJobsFrom_def readdirnames_dir)
  have src: "\<forall>n\<in>set ?ns. fs_lookup fs (?d @ [n]) \<noteq> None" by (simp add: children_iff)
  from wf have dist: "distinct ?ns" by (simp add: distinct_children fs_wf_def)
  from reschedule_moves [OF wf dist src fresh new worker_new_parallel rr]
  have wfR: "fs_wf fsR" and moved: "\<forall>n\<in>set ?ns. \<forall>r. fs_lookup fsR (?N @ [n] @ r) = fs_lookup fs (?d @ [n] @ r) \<and>
                       fs_lookup fsR (?d @ [n] @ r) = None" by auto
  have frameR: "fs_lookup fsR p = fs_lookup fs p"
    if "\<forall>n \<in> set ?ns. \<not> prefix (?d @ [n]) p \<and> \<not> prefix (?N @ [n]) p" for p
    using rr that by (rule reschedule_frame)
  have pn: "\<not> prefix (?N @ ys) (?d @ xs)" "\<not> prefix (?d @ ys) (?N @ xs)" for xs ys
    using worker_new_parallel parallel_no_prefix parallel_commute by blast+
  have emptyR: "children fsR ?d = []"
  proof -
    have "fs_lookup fsR (?d @ [n]) = None" for n
    proof (cases "n \<in> set ?ns")
      case True
      with moved show ?thesis by (metis append_Nil2)
    next
      case False
      have "fs_lookup fsR (?d @ [n]) = fs_lookup fs (?d @ [n])"
        using rr False pn [of _ "[n]"] by (intro reschedule_frame) auto
      with False show ?thesis by (simp add: children_iff)
    qed
    then show ?thesis by (metis children_iff last_in_set)
  qed
  have slotR: "fs_lookup fsR ?d = Some Dir"
  proof -
    have "\<not> prefix (?d @ [n]) ?d" for n by (simp add: prefix_def)
    moreover have "\<not> prefix (?N @ [n]) ?d" for n using pn [of "[n]" "[]"] by simp
    ultimately show ?thesis using frameR slot by simp
  qed
  have dne: "?d \<noteq> []" by (simp add: getWorkerDir_def)
  have rm: "remove fsR ?d = Inr (filter (\<lambda>x. fst x \<noteq> ?d) fsR)"
    using wfR slotR emptyR dne by (simp add: remove_def lstat_wf_Some)
  from res from_ rm atoi dead have fs': "fs' = filter (\<lambda>x. fst x \<noteq> ?d) fsR"
    by (auto simp: processExists_def split: prod.splits)
  have "fs_wf fs'" using fs' fs_wf_remove [OF wfR rm] by simp
  moreover have "fs_lookup fs' ?d = None" by (simp add: fs' fs_lookup_filter_out)
  moreover have "\<forall>n \<in> set ?ns. \<forall>r. fs_lookup fs' (?N @ [n] @ r) = fs_lookup fs (?d @ [n] @ r)"
  proof (intro ballI allI)
    fix n r assume n: "n \<in> set ?ns"
    have "?N @ [n] @ r \<noteq> ?d" using pn [of "[n] @ r" "[]"] by auto
    then show "fs_lookup fs' (?N @ [n] @ r) = fs_lookup fs (?d @ [n] @ r)"
      using moved n by (simp add: fs' fs_lookup_filter_out)
  qed
  moreover have "fs_lookup fs' p = fs_lookup fs p"
    if "\<not> prefix ?d p" "\<forall>n \<in> set ?ns. \<not> prefix (?N @ [n]) p" for p
  proof -
    have "\<not> prefix (?d @ [n]) p" for n using that(1) by (meson append_prefixD)
    then have "fs_lookup fsR p = fs_lookup fs p" using that(2) frameR by blast
    moreover have "p \<noteq> ?d" using that(1) by auto
    ultimately show ?thesis by (simp add: fs' fs_lookup_filter_out)
  qed
  ultimately show ?thesis by blast
qed


text \<open>A dead process whose slot is not a directory: at most a file of that name is removed.\<close>

lemma rescue_one_gone_not_dir:
  assumes wf: "fs_wf fs" and nd: "fs_lookup fs (getWorkerDir qu pid) \<noteq> Some Dir"
    and atoi: "Atoi s = Some pid" and dead: "ps pid = Some ESRCH"
    and res: "rescue_owners qu ps [s] fs = (fs', lg)"
  shows "fs_wf fs' \<and> fs_lookup fs' (getWorkerDir qu pid) = None \<and>
    (\<forall>k. k \<noteq> getWorkerDir qu pid \<longrightarrow> fs_lookup fs' k = fs_lookup fs k)"
proof -
  let ?d = "getWorkerDir qu pid"
  obtain e where rd: "readdirnames fs ?d = ([], Some e)" using readdirnames_not_dir [OF wf nd] by blast
  have from_: "rescueDeadJobsFrom qu pid fs = (fs, [CouldNotReadWorker pid ?d])"
    using rd by (simp add: rescueDeadJobsFrom_def)
  show ?thesis
  proof (cases "remove fs ?d")
    case (Inl e')
    then have "fs' = fs" using res from_ atoi dead by (simp add: processExists_def)
    moreover have "fs_lookup fs ?d = None"
      using Inl wf nd by (cases "fs_lookup fs ?d") (auto simp: remove_def lstat_wf_Some split: node.splits)
    ultimately show ?thesis using wf by simp
  next
    case (Inr fs1)
    then have "fs' = fs1" using res from_ atoi dead by (simp add: processExists_def)
    with Inr wf show ?thesis
      using remove_Inr [OF wf Inr] fs_wf_remove [OF wf Inr] by (simp add: fs_lookup_filter_out)
  qed
qed



lemma worker_no_prefix:
  assumes "- (2 ^ 63) \<le> p" "p < 2 ^ 63" "- (2 ^ 63) \<le> w" "w < 2 ^ 63" "p \<noteq> w"
  shows "\<not> prefix (getWorkerDir qu w) (getWorkerDir qu p @ xs)"
proof -
  have "Itoa p \<noteq> Itoa w" using assms Atoi_Itoa by (metis option.inject)
  then show ?thesis by (simp add: worker_dir_child)
qed

lemma worker_new_no_prefix:
  "\<not> prefix (getNewDir qu @ ys) (getWorkerDir qu p @ xs)"
  "\<not> prefix (getWorkerDir qu p @ ys) (getNewDir qu @ xs)"
  "\<not> prefix (getNewDir qu @ ys) (getWorkerDir qu p)"
  "\<not> prefix (getWorkerDir qu p) (getNewDir qu @ xs)"
  "\<not> prefix (getWorkerDir qu p) (getNewDir qu)"
  using worker_new_parallel parallel_no_prefix parallel_commute
  by (metis append_Nil2)+

text \<open>The loop over \<open>cur\<close> entry by entry: each dead process id it meets extends \<open>sweep_inv\<close>.\<close>

lemma sweep_inv_unvisited:
  assumes inv: "sweep_inv qu ps fs0 P fs" and p: "p \<notin> P" "- (2 ^ 63) \<le> p" "p < 2 ^ 63"
  shows "fs_lookup fs (getWorkerDir qu p @ xs) = fs_lookup fs0 (getWorkerDir qu p @ xs)"
proof -
  have "\<not> prefix (getWorkerDir qu w) (getWorkerDir qu p @ xs)" if "w \<in> P" for w
    using inv that p by (intro worker_no_prefix) (auto simp: sweep_inv_def)
  then show ?thesis using inv by (simp add: sweep_inv_def worker_new_no_prefix)
qed


lemma sweep_inv_revisit:
  assumes inv: "sweep_inv qu ps fs0 P fs" and p: "p \<in> P"
    and atoi: "Atoi s = Some p" and dead: "ps p = Some ESRCH"
    and res: "rescue_owners qu ps [s] fs = (fs', lg)"
  shows "sweep_inv qu ps fs0 P fs'"
proof -
  from inv p have wf: "fs_wf fs" and none: "fs_lookup fs (getWorkerDir qu p) = None"
    by (auto simp: sweep_inv_def)
  from rescue_one_gone_not_dir [OF wf _ atoi dead res] none
  have wf': "fs_wf fs'" and fr: "\<And>k. k \<noteq> getWorkerDir qu p \<Longrightarrow> fs_lookup fs' k = fs_lookup fs k"
    and none': "fs_lookup fs' (getWorkerDir qu p) = None" by auto
  have "fs_lookup fs' = fs_lookup fs"
  proof
    fix k show "fs_lookup fs' k = fs_lookup fs k" using fr none none' by (cases "k = getWorkerDir qu p") auto
  qed
  with wf' have "fs_wf fs'" and "fs_lookup fs' = fs_lookup fs" by simp_all
  with inv show ?thesis by (simp add: sweep_inv_def)
qed

lemma sweep_inv_not_dir:
  assumes wf0: "fs_wf fs0" and inv: "sweep_inv qu ps fs0 P fs" and p: "p \<notin> P"
    and atoi: "Atoi s = Some p" and dead: "ps p = Some ESRCH"
    and nd: "fs_lookup fs0 (getWorkerDir qu p) \<noteq> Some Dir"
    and res: "rescue_owners qu ps [s] fs = (fs', lg)"
  shows "sweep_inv qu ps fs0 (insert p P) fs'"
proof -
  let ?W = "getWorkerDir qu"
  have R: "- (2 ^ 63) \<le> p" "p < 2 ^ 63" using Atoi_range [OF atoi] by auto
  from inv have wf: "fs_wf fs" by (simp add: sweep_inv_def)
  have "fs_lookup fs (?W p) \<noteq> Some Dir"
    using sweep_inv_unvisited [OF inv p R, of "[]"] nd by simp
  from rescue_one_gone_not_dir [OF wf this atoi dead res]
  have wf': "fs_wf fs'" and none: "fs_lookup fs' (?W p) = None"
    and fr: "\<And>k. k \<noteq> ?W p \<Longrightarrow> fs_lookup fs' k = fs_lookup fs k" by auto
  have nc: "children fs0 (?W p) = []" using wf0 nd by (rule children_not_dir)
  have old: "fs_lookup fs' (?W w) = fs_lookup fs (?W w)" if "w \<in> P" for w
  proof -
    have "w \<noteq> p" using that p by auto
    moreover have "- (2 ^ 63) \<le> w" "w < 2 ^ 63" using inv that by (auto simp: sweep_inv_def)
    ultimately have "?W w \<noteq> ?W p" using R worker_no_prefix [of p w qu "[]"] by auto
    then show ?thesis by (rule fr)
  qed
  have new: "fs_lookup fs' (getNewDir qu @ xs) = fs_lookup fs (getNewDir qu @ xs)" for xs
    using fr worker_new_no_prefix(2) [of qu p "[]" xs] by auto
  have "\<forall>k. (\<forall>w\<in>insert p P. \<not> prefix (?W w) k \<and>
              (\<forall>n\<in>set (children fs0 (?W w)). \<not> prefix (getNewDir qu @ [n]) k)) \<longrightarrow>
          fs_lookup fs' k = fs_lookup fs0 k"
    using inv fr by (auto simp: sweep_inv_def)
  then show ?thesis using inv wf' none nc old new R dead by (simp add: sweep_inv_def)
qed


lemma sweep_inv_dead_dir:
  assumes new0: "fs_lookup fs0 (getNewDir qu) = Some Dir"
    and fresh0: "\<forall>p n. ps p = Some ESRCH \<longrightarrow> - (2 ^ 63) \<le> p \<longrightarrow> p < 2 ^ 63 \<longrightarrow>
        n \<in> set (children fs0 (getWorkerDir qu p)) \<longrightarrow> fs_lookup fs0 (getNewDir qu @ [n]) = None"
    and dist0: "\<forall>p w n. ps p = Some ESRCH \<longrightarrow> ps w = Some ESRCH \<longrightarrow>
        - (2 ^ 63) \<le> p \<longrightarrow> p < 2 ^ 63 \<longrightarrow> - (2 ^ 63) \<le> w \<longrightarrow> w < 2 ^ 63 \<longrightarrow>
        n \<in> set (children fs0 (getWorkerDir qu p)) \<longrightarrow> n \<in> set (children fs0 (getWorkerDir qu w)) \<longrightarrow> p = w"
    and inv: "sweep_inv qu ps fs0 P fs" and p: "p \<notin> P"
    and atoi: "Atoi s = Some p" and dead: "ps p = Some ESRCH"
    and slot0: "fs_lookup fs0 (getWorkerDir qu p) = Some Dir"
    and res: "rescue_owners qu ps [s] fs = (fs', lg)"
  shows "sweep_inv qu ps fs0 (insert p P) fs'"
proof -
  let ?W = "getWorkerDir qu" and ?N = "getNewDir qu"
  have R: "- (2 ^ 63) \<le> p" "p < 2 ^ 63" using Atoi_range [OF atoi] by auto
  from inv have wf: "fs_wf fs"
    and I2: "\<And>w. w \<in> P \<Longrightarrow> ps w = Some ESRCH \<and> - (2 ^ 63) \<le> w \<and> w < 2 ^ 63 \<and>
        fs_lookup fs (?W w) = None \<and>
        (\<forall>n\<in>set (children fs0 (?W w)). \<forall>r. fs_lookup fs (?N @ [n] @ r) = fs_lookup fs0 (?W w @ [n] @ r))"
    and I3: "\<And>k. \<forall>w\<in>P. \<not> prefix (?W w) k \<and> (\<forall>n\<in>set (children fs0 (?W w)). \<not> prefix (?N @ [n]) k) \<Longrightarrow>
        fs_lookup fs k = fs_lookup fs0 k"
    by (auto simp: sweep_inv_def)
  have here: "fs_lookup fs (?W p @ xs) = fs_lookup fs0 (?W p @ xs)" for xs
    using inv p R by (rule sweep_inv_unvisited)
  have ch: "set (children fs (?W p)) = set (children fs0 (?W p))"
    using here by (auto simp: children_iff)
  have other: "n \<notin> set (children fs0 (?W w))" if "w \<in> P" "n \<in> set (children fs0 (?W p))" for w n
    using dist0 I2 [OF that(1)] that p dead R by metis
  have keepN: "fs_lookup fs (?N @ xs) = fs_lookup fs0 (?N @ xs)" if "xs = [] \<or> hd xs \<in> set (children fs0 (?W p))" for xs
  proof (rule I3, rule ballI)
    fix w assume w: "w \<in> P"
    show "\<not> prefix (?W w) (?N @ xs) \<and> (\<forall>n\<in>set (children fs0 (?W w)). \<not> prefix (?N @ [n]) (?N @ xs))"
      using that other [OF w] by (cases xs) (auto simp: worker_new_no_prefix)
  qed
  have slot: "fs_lookup fs (?W p) = Some Dir" using here [of "[]"] slot0 by simp
  have new: "fs_lookup fs ?N = Some Dir" using keepN [of "[]"] new0 by simp
  have fresh: "\<forall>n \<in> set (children fs (?W p)). fs_lookup fs (?N @ [n]) = None"
    using keepN [of "[_]"] fresh0 dead R ch by auto
  from rescue_one_dead [OF wf new slot dead atoi fresh res]
  have wf': "fs_wf fs'" and none: "fs_lookup fs' (?W p) = None"
    and mv: "\<forall>n \<in> set (children fs0 (?W p)). \<forall>r. fs_lookup fs' (?N @ [n] @ r) = fs_lookup fs0 (?W p @ [n] @ r)"
    and fr: "\<And>k. \<not> prefix (?W p) k \<Longrightarrow> \<forall>n \<in> set (children fs0 (?W p)). \<not> prefix (?N @ [n]) k \<Longrightarrow>
        fs_lookup fs' k = fs_lookup fs k"
    using ch here by auto
  have I2': "fs_lookup fs' (?W w) = None \<and>
      (\<forall>n\<in>set (children fs0 (?W w)). \<forall>r. fs_lookup fs' (?N @ [n] @ r) = fs_lookup fs0 (?W w @ [n] @ r))"
    if w: "w \<in> P" for w
  proof -
    have "w \<noteq> p" using w p by auto
    with I2 [OF w] R have np: "\<not> prefix (?W p) (?W w @ xs)" for xs by (simp add: worker_no_prefix)
    have "fs_lookup fs' (?W w) = fs_lookup fs (?W w)"
      using np [of "[]"] by (intro fr) (simp_all add: worker_new_no_prefix)
    moreover have "fs_lookup fs' (?N @ [n] @ r) = fs_lookup fs (?N @ [n] @ r)"
      if "n \<in> set (children fs0 (?W w))" for n r
      using that other [OF w] by (intro fr) (auto simp: worker_new_no_prefix)
    ultimately show ?thesis using I2 [OF w] by simp
  qed
  have I3': "fs_lookup fs' k = fs_lookup fs0 k"
    if "\<forall>w\<in>insert p P. \<not> prefix (?W w) k \<and> (\<forall>n\<in>set (children fs0 (?W w)). \<not> prefix (?N @ [n]) k)" for k
    using that fr I3 by simp
  show ?thesis using wf' none mv I2 I2' I3' R dead by (auto simp: sweep_inv_def)
qed


lemma sweep_inv_entry:
  assumes wf0: "fs_wf fs0" and new0: "fs_lookup fs0 (getNewDir qu) = Some Dir"
    and fresh0: "\<forall>p n. ps p = Some ESRCH \<longrightarrow> - (2 ^ 63) \<le> p \<longrightarrow> p < 2 ^ 63 \<longrightarrow>
        n \<in> set (children fs0 (getWorkerDir qu p)) \<longrightarrow> fs_lookup fs0 (getNewDir qu @ [n]) = None"
    and dist0: "\<forall>p w n. ps p = Some ESRCH \<longrightarrow> ps w = Some ESRCH \<longrightarrow>
        - (2 ^ 63) \<le> p \<longrightarrow> p < 2 ^ 63 \<longrightarrow> - (2 ^ 63) \<le> w \<longrightarrow> w < 2 ^ 63 \<longrightarrow>
        n \<in> set (children fs0 (getWorkerDir qu p)) \<longrightarrow> n \<in> set (children fs0 (getWorkerDir qu w)) \<longrightarrow> p = w"
    and inv: "sweep_inv qu ps fs0 P fs"
    and res: "rescue_owners qu ps [s] fs = (fs', lg)"
  shows "sweep_inv qu ps fs0 (P \<union> {p. Atoi s = Some p \<and> ps p = Some ESRCH}) fs'"
proof (cases "\<exists>p. Atoi s = Some p \<and> ps p = Some ESRCH")
  case False
  then have fs': "fs' = fs" using res rescue_owners_spare [of "[s]" ps qu fs] by auto
  from False have e: "{p. Atoi s = Some p \<and> ps p = Some ESRCH} = {}" by auto
  show ?thesis using inv by (simp only: fs' e Un_empty_right)
next
  case True
  then obtain p where atoi: "Atoi s = Some p" and dead: "ps p = Some ESRCH" by blast
  then have set: "P \<union> {p. Atoi s = Some p \<and> ps p = Some ESRCH} = insert p P" by auto
  show ?thesis
  proof (cases "p \<in> P")
    case True
    with sweep_inv_revisit [OF inv True atoi dead res] set show ?thesis by (simp add: insert_absorb)
  next
    case False
    show ?thesis
    proof (cases "fs_lookup fs0 (getWorkerDir qu p) = Some Dir")
      case True
      with sweep_inv_dead_dir [OF new0 fresh0 dist0 inv False atoi dead True res] set show ?thesis by simp
    next
      case nd: False
      with sweep_inv_not_dir [OF wf0 inv False atoi dead nd res] set show ?thesis by simp
    qed
  qed
qed

lemma sweep_inv_loop:
  assumes wf0: "fs_wf fs0" and new0: "fs_lookup fs0 (getNewDir qu) = Some Dir"
    and fresh0: "\<forall>p n. ps p = Some ESRCH \<longrightarrow> - (2 ^ 63) \<le> p \<longrightarrow> p < 2 ^ 63 \<longrightarrow>
        n \<in> set (children fs0 (getWorkerDir qu p)) \<longrightarrow> fs_lookup fs0 (getNewDir qu @ [n]) = None"
    and dist0: "\<forall>p w n. ps p = Some ESRCH \<longrightarrow> ps w = Some ESRCH \<longrightarrow>
        - (2 ^ 63) \<le> p \<longrightarrow> p < 2 ^ 63 \<longrightarrow> - (2 ^ 63) \<le> w \<longrightarrow> w < 2 ^ 63 \<longrightarrow>
        n \<in> set (children fs0 (getWorkerDir qu p)) \<longrightarrow> n \<in> set (children fs0 (getWorkerDir qu w)) \<longrightarrow> p = w"
  shows "sweep_inv qu ps fs0 P fs \<Longrightarrow> rescue_owners qu ps names fs = (fs', lg) \<Longrightarrow>
    sweep_inv qu ps fs0 (P \<union> {p. \<exists>s\<in>set names. Atoi s = Some p \<and> ps p = Some ESRCH}) fs'"
proof (induction names arbitrary: P fs lg)
  case Nil
  then show ?case by simp
next
  case (Cons s ss)
  obtain fs1 lg1 where r1: "rescue_owners qu ps [s] fs = (fs1, lg1)" by fastforce
  obtain fs2 lg2 where r2: "rescue_owners qu ps ss fs1 = (fs2, lg2)" by fastforce
  from rescue_owners_append [OF r1 r2] Cons.prems(2) have "fs2 = fs'" by simp
  from sweep_inv_entry [OF wf0 new0 fresh0 dist0 Cons.prems(1) r1]
  have "sweep_inv qu ps fs0 (P \<union> {p. Atoi s = Some p \<and> ps p = Some ESRCH}) fs1" .
  from Cons.IH [OF this r2 [unfolded \<open>fs2 = fs'\<close>]] show ?case
    by (simp add: Un_assoc Collect_disj_eq [symmetric] conj_disj_distribR ex_disj_distrib)
qed

text \<open>The events the loop over \<open>cur\<close> logs for one of its entries, whatever the others do.\<close>

lemma rescue_owners_logs:
  assumes "s \<in> set names"
  shows "(Atoi s = None \<longrightarrow> NotAPid s \<in> set (snd (rescue_owners qu ps names fs))) \<and>
    (\<forall>p e. Atoi s = Some p \<longrightarrow> ps p = Some e \<longrightarrow> e \<noteq> ESRCH \<longrightarrow>
       KillFailed p e \<in> set (snd (rescue_owners qu ps names fs))) \<and>
    (\<forall>p. Atoi s = Some p \<longrightarrow> ps p = Some ESRCH \<longrightarrow> ProcessGone p \<in> set (snd (rescue_owners qu ps names fs)))"
  using assms
proof (induction names arbitrary: fs)
  case Nil
  then show ?case by simp
next
  case (Cons t ts)
  show ?case
  proof (cases "s = t")
    case True
    then show ?thesis
      by (auto simp: processExists_def split: option.splits prod.splits if_splits)
  next
    case False
    with Cons.prems have "s \<in> set ts" by simp
    note IH = Cons.IH [OF this]
    show ?thesis
    proof (cases "Atoi t")
      case None
      with IH [of fs] show ?thesis by (auto split: prod.splits)
    next
      case (Some p)
      show ?thesis
      proof (cases "ps p")
        case None
        with Some IH [of fs] show ?thesis by (auto simp: processExists_def split: prod.splits)
      next
        case (Some e)
        show ?thesis
        proof (cases "e = ESRCH")
          case False
          with Some \<open>Atoi t = Some p\<close> IH [of fs] show ?thesis
            by (auto simp: processExists_def split: prod.splits)
        next
          case True
          obtain fs1 lg1 where r1: "rescueDeadJobsFrom qu p fs = (fs1, lg1)" by fastforce
          obtain fs2 lg2 where r2: "(case remove fs1 (getWorkerDir qu p) of
              Inl e \<Rightarrow> (fs1, [RmdirFailed (getWorkerDir qu p) e]) | Inr fs' \<Rightarrow> (fs', [])) = (fs2, lg2)"
            by fastforce
          from r1 r2 Some True \<open>Atoi t = Some p\<close> IH [of fs2] show ?thesis
            by (auto simp: processExists_def split: prod.splits)
        qed
      qed
    qed
  qed
qed

section \<open>Properties of the sweep\<close>

text \<open>
  C11: A sweep never touches the owner slot of a live worker, nor any slot whose
  name is not the canonical decimal form of a dead process id. The sweep leaves the subtree \<open>cur/s\<close> alone unless \<open>s\<close> is the decimal form
  \<open>Itoa pid\<close> of a process id that \<open>kill\<close> reports gone: the only paths it renames
  or removes are \<open>getWorkerDir pid\<close> and the jobs below it, for such a \<open>pid\<close>.
\<close>

theorem rescue_touches_only_dead_slots:
  assumes res: "RescueDeadJobs qu ps fs = ((err, fs'), lg)"
    and other: "\<forall>pid. Atoi s = Some pid \<longrightarrow> ps pid = Some ESRCH \<longrightarrow> Itoa pid \<noteq> s"
  shows "fs_lookup fs' (basedir qu @ [''cur'', s] @ r) = fs_lookup fs (basedir qu @ [''cur'', s] @ r)"
proof -
  let ?p = "basedir qu @ [''cur'', s] @ r"
  have slots: "?p \<noteq> getWorkerDir qu pid \<and> (\<forall>n. \<not> prefix (getWorkerDir qu pid @ [n]) ?p)"
    if "Atoi s' = Some pid" "ps pid = Some ESRCH" for s' pid
  proof -
    have "Itoa pid \<noteq> s"
    proof
      assume eq: "Itoa pid = s"
      from that(1) have "Atoi (Itoa pid) = Some pid"
        using Atoi_range Atoi_Itoa by blast
      with eq other that(2) show False by auto
    qed
    then show ?thesis by (auto simp: getWorkerDir_def)
  qed
  have new: "\<forall>n. \<not> prefix (getNewDir qu @ [n]) ?p" by (simp add: getNewDir_def)
  show ?thesis
  proof (cases "readdirnames fs (getCurDir qu)")
    case (Pair names e)
    show ?thesis
    proof (cases e)
      case None
      with res Pair obtain lg' where "rescue_owners qu ps names fs = (fs', lg')"
        by (auto simp: RescueDeadJobs_def split: prod.splits)
      then show ?thesis using slots new by (blast intro: rescue_owners_frame)
    next
      case (Some x)
      with res Pair show ?thesis by (simp add: RescueDeadJobs_def)
    qed
  qed
qed

text \<open>
  C10: A sweep returns the jobs of every dead worker to \<open>new\<close> and removes every
  dead worker's slot. When \<open>cur\<close> and \<open>new\<close> are directories, no job name of a dead
  worker's slot is already taken in \<open>new\<close>, and no job name occurs in the slots
  of two different dead workers, \<open>RescueDeadJobs\<close> succeeds. Afterwards, for
  every process id in the range of \<open>int64\<close> that \<open>kill\<close> reports gone, the slot
  \<open>cur/<pid>\<close> is gone, and each job that was in it sits in \<open>new\<close> with all its
  contents.
\<close>

theorem rescue_dead_slots:
  assumes wf: "fs_wf fs" and cur: "fs_lookup fs (getCurDir qu) = Some Dir"
    and new: "fs_lookup fs (getNewDir qu) = Some Dir"
    and fresh: "\<forall>p n. ps p = Some ESRCH \<longrightarrow> - (2 ^ 63) \<le> p \<longrightarrow> p < 2 ^ 63 \<longrightarrow>
        n \<in> set (children fs (getWorkerDir qu p)) \<longrightarrow> fs_lookup fs (getNewDir qu @ [n]) = None"
    and distinct: "\<forall>p w n. ps p = Some ESRCH \<longrightarrow> ps w = Some ESRCH \<longrightarrow>
        - (2 ^ 63) \<le> p \<longrightarrow> p < 2 ^ 63 \<longrightarrow> - (2 ^ 63) \<le> w \<longrightarrow> w < 2 ^ 63 \<longrightarrow>
        n \<in> set (children fs (getWorkerDir qu p)) \<longrightarrow> n \<in> set (children fs (getWorkerDir qu w)) \<longrightarrow> p = w"
    and res: "RescueDeadJobs qu ps fs = ((err, fs'), lg)"
  shows "err = None \<and> fs_wf fs' \<and>
    (\<forall>p. ps p = Some ESRCH \<longrightarrow> - (2 ^ 63) \<le> p \<longrightarrow> p < 2 ^ 63 \<longrightarrow>
       fs_lookup fs' (getWorkerDir qu p) = None \<and>
       (\<forall>n \<in> set (children fs (getWorkerDir qu p)). \<forall>r.
          fs_lookup fs' (getNewDir qu @ [n] @ r) = fs_lookup fs (getWorkerDir qu p @ [n] @ r)))"
proof -
  let ?names = "children fs (getCurDir qu)"
  let ?P = "{p. \<exists>s\<in>set ?names. Atoi s = Some p \<and> ps p = Some ESRCH}"
  obtain lg' where ro: "rescue_owners qu ps ?names fs = (fs', lg')" and err: "err = None"
    using res wf cur by (auto simp: RescueDeadJobs_def readdirnames_dir split: prod.splits)
  have inv0: "sweep_inv qu ps fs {} fs" using wf by (simp add: sweep_inv_def)
  from sweep_inv_loop [OF wf new fresh distinct inv0 ro]
  have inv: "sweep_inv qu ps fs ?P fs'" by simp
  have "fs_lookup fs' (getWorkerDir qu p) = None \<and>
       (\<forall>n \<in> set (children fs (getWorkerDir qu p)). \<forall>r.
          fs_lookup fs' (getNewDir qu @ [n] @ r) = fs_lookup fs (getWorkerDir qu p @ [n] @ r))"
    if dead: "ps p = Some ESRCH" and R: "- (2 ^ 63) \<le> p" "p < 2 ^ 63" for p
  proof (cases "p \<in> ?P")
    case True
    with inv show ?thesis by (simp add: sweep_inv_def)
  next
    case False
    have "fs_lookup fs (getWorkerDir qu p) = None"
    proof (rule ccontr)
      assume "fs_lookup fs (getWorkerDir qu p) \<noteq> None"
      then have "Itoa p \<in> set ?names" by (simp add: children_iff worker_dir_child)
      with False dead Atoi_Itoa [OF R] show False by auto
    qed
    moreover have "fs_lookup fs' (getWorkerDir qu p) = fs_lookup fs (getWorkerDir qu p)"
      using sweep_inv_unvisited [OF inv False R, of "[]"] by simp
    ultimately show ?thesis using children_not_dir [OF wf] by simp
  qed
  with err inv show ?thesis by (simp add: sweep_inv_def)
qed

text \<open>
  C23: The sweep isolates its failures. For every entry of \<open>cur\<close>, the sweep
  returns no error and logs: an entry that does not parse as a process id
  (\<open>NotAPid\<close>), a probe that fails with anything but \<open>ESRCH\<close>
  (\<open>KillFailed\<close>), and a process found gone (\<open>ProcessGone\<close>), whatever
  the other entries are and whatever their renames and removals do.
\<close>

theorem rescue_logs_entries:
  assumes wf: "fs_wf fs" and cur: "fs_lookup fs (getCurDir qu) = Some Dir"
    and s: "s \<in> set (children fs (getCurDir qu))"
    and res: "RescueDeadJobs qu ps fs = ((err, fs'), lg)"
  shows "err = None \<and> (Atoi s = None \<longrightarrow> NotAPid s \<in> set lg) \<and>
    (\<forall>p e. Atoi s = Some p \<longrightarrow> ps p = Some e \<longrightarrow> e \<noteq> ESRCH \<longrightarrow> KillFailed p e \<in> set lg) \<and>
    (\<forall>p. Atoi s = Some p \<longrightarrow> ps p = Some ESRCH \<longrightarrow> ProcessGone p \<in> set lg)"
proof -
  have "err = None \<and> lg = snd (rescue_owners qu ps (children fs (getCurDir qu)) fs)"
    using res wf cur by (auto simp: RescueDeadJobs_def readdirnames_dir split: prod.splits)
  with rescue_owners_logs [OF s, of qu ps fs] show ?thesis by simp
qed

end
