(* ===== verification/Props.thy ===== *)
theory Props
  imports Queue
begin

text \<open>
  The property store of \<open>src/pqueue/pqueue.go\<close>: \<open>(*Job).Get\<close> reads the file
  named by the key inside the job's directory; \<open>(*Job).Set\<close> writes the value to
  a fresh temporary file in \<open>tmp\<close> and renames it over the key. \<open>Set_trace\<close>
  lists the states after each system call of \<open>Set\<close>, the states another process
  can observe while it runs. The lemmas show the round trip, that a failure keeps
  the old value, and that no intermediate state exposes a partial value.
\<close>

section \<open>Operations\<close>

definition Get :: "job \<Rightarrow> name \<Rightarrow> fs \<Rightarrow> errno + bytes" where
  "Get j nm fs = read_file fs (dir j @ [nm])"

text \<open>
  \<open>Set\<close> writes the value to a fresh file in \<open>tmp\<close> and renames it into the job's
  directory. \<open>f.Close()\<close> is not modelled (it does not fail on this
  filesystem). The log line of a failed rename has no error: the format string
  has three verbs and the call passes two arguments.
\<close>

definition Set :: "job \<Rightarrow> name \<Rightarrow> bytes \<Rightarrow> string list \<Rightarrow> fs \<Rightarrow> (errno option \<times> fs) \<times> log_event list" where
  "Set j nm data rnds fs =
     (case CreateTemp fs (basedir (q j) @ [''tmp'']) nm rnds of
        Inl e \<Rightarrow> ((Some e, fs), [])
      | Inr (fn, fs1) \<Rightarrow>
          (case write_file fs1 fn data of
             Inl e \<Rightarrow> ((Some e, fs1), [])
           | Inr fs2 \<Rightarrow>
               (let newfn = dir j @ [nm]
                in case os_rename fs2 fn newfn of
                     Inl e \<Rightarrow> ((Some e, fs2), [SetRenameFailed fn newfn])
                   | Inr fs3 \<Rightarrow> ((None, fs3), []))))"

text \<open>
  The states after each system call of \<open>Set\<close> that changes the tree, in order:
  the temporary file created, written, and renamed into the job. Reads by other
  processes interleave between them; the last state is the result of \<open>Set\<close>.
\<close>

definition Set_trace :: "job \<Rightarrow> name \<Rightarrow> bytes \<Rightarrow> string list \<Rightarrow> fs \<Rightarrow> fs list" where
  "Set_trace j nm data rnds fs =
     (case CreateTemp fs (basedir (q j) @ [''tmp'']) nm rnds of
        Inl e \<Rightarrow> []
      | Inr (fn, fs1) \<Rightarrow>
          (case write_file fs1 fn data of
             Inl e \<Rightarrow> [fs1]
           | Inr fs2 \<Rightarrow>
               (case os_rename fs2 fn (dir j @ [nm]) of
                  Inl e \<Rightarrow> [fs1, fs2]
                | Inr fs3 \<Rightarrow> [fs1, fs2, fs3])))"

section \<open>The steps of Set\<close>

lemma Set_temp:
  assumes "CreateTemp fs d nm rnds = Inr (fn, fs1)"
  shows "fs_lookup fs fn = None \<and> butlast fn = d \<and> fn \<noteq> [] \<and>
    (\<forall>k. fs_lookup fs1 k = (if k = fn then Some (File []) else fs_lookup fs k)) \<and>
    (\<exists>fs2. write_file fs1 fn data = Inr fs2 \<and>
       (\<forall>k. fs_lookup fs2 k = (if k = fn then Some (File data) else fs_lookup fs k)))"
proof -
  from CreateTemp_Inr [OF assms] obtain pre r suf where
    fn: "fn = d @ [pre @ r @ suf]" and c: "create_excl fs fn = Inr fs1" by blast
  from create_excl_Inr [OF c] have none: "fs_lookup fs fn = None" and fs1: "fs1 = fs @ [(fn, File [])]"
    by auto
  have l1: "fs_lookup fs1 k = (if k = fn then Some (File []) else fs_lookup fs k)" for k
    using none by (simp add: fs1 fs_lookup_snoc)
  have "write_file fs1 fn data = Inr (map (\<lambda>x. if fst x = fn then (fn, File data) else x) fs1)"
    using l1 [of fn] by (simp add: write_file_def)
  moreover have "fs_lookup (map (\<lambda>x. if fst x = fn then (fn, File data) else x) fs1) k =
      (if k = fn then Some (File data) else fs_lookup fs k)" for k
    using l1 [of k] l1 [of fn] by (auto simp: fs_lookup_def)
  ultimately show ?thesis using none l1 fn by auto
qed

text \<open>A state that differs from \<open>fs\<close> only at a path that is fresh in \<open>fs\<close> answers
  every \<open>Get\<close> of an existing job as \<open>fs\<close> does.\<close>

lemma Get_frame:
  assumes wf: "fs_wf fs" and jd: "fs_lookup fs (dir j) = Some Dir"
    and fresh: "fs_lookup fs fn = None" and ne: "fn \<noteq> dir j @ [nm]"
    and same: "\<forall>k. k \<noteq> fn \<longrightarrow> fs_lookup s k = fs_lookup fs k"
  shows "Get j nm s = Get j nm fs"
proof -
  let ?p = "dir j @ [nm]"
  have anc: "fs_lookup fs q = Some Dir" if "strict_prefix q ?p" for q
  proof -
    from that have "prefix q (dir j)" by (metis prefix_snoc strict_prefix_def)
    then have "q = dir j \<or> strict_prefix q (dir j)" by (auto simp: strict_prefix_def)
    with jd wf show ?thesis by (auto intro: fs_wf_ancestor)
  qed
  have "fs_lookup s q = Some Dir" if "strict_prefix q ?p" for q
    using anc [OF that] same fresh by (metis option.distinct(1))
  then have ws: "walk s [] ?p = None" by (simp add: walk_None_iff)
  have "walk fs [] ?p = None" using anc by (simp add: walk_None_iff)
  moreover have "fs_lookup s ?p = fs_lookup fs ?p" using same ne by simp
  ultimately show ?thesis using ws by (simp add: Get_def read_file_def lstat_def)
qed

lemma rename_read:
  "fs_wf fs \<Longrightarrow> fs_lookup fs fn = Some (File data) \<Longrightarrow> os_rename fs fn p = Inr fs' \<Longrightarrow>
   read_file fs' p = Inr data"
  by (frule (1) fs_wf_os_rename) (simp add: read_file_def lstat_wf_Some os_rename_dst)

lemma fs_wf_Set_temp:
  assumes wf: "fs_wf fs" and c: "CreateTemp fs d nm rnds = Inr (fn, fs1)" and w: "write_file fs1 fn data = Inr fs2"
  shows "fs_wf fs1 \<and> fs_wf fs2"
  using wf c w by (blast intro: fs_wf_CreateTemp fs_wf_write_file)

section \<open>Properties of the property store\<close>

text \<open>The two ways \<open>Set\<close> fails: the temporary file cannot be created, and nothing
  changes; or the final rename fails, and the written temporary file stays.\<close>

lemma Set_failed_cases:
  assumes res: "Set j nm data rnds fs = ((Some e, fs'), lg)"
  shows "(fs' = fs \<and> lg = []) \<or>
    (\<exists>fn. butlast fn = basedir (q j) @ [''tmp''] \<and> fs_lookup fs fn = None \<and>
       (\<forall>k. fs_lookup fs' k = (if k = fn then Some (File data) else fs_lookup fs k)) \<and>
       os_rename fs' fn (dir j @ [nm]) = Inl e \<and> lg = [SetRenameFailed fn (dir j @ [nm])])"
proof (cases "CreateTemp fs (basedir (q j) @ [''tmp'']) nm rnds")
  case (Inl x)
  with res show ?thesis by (simp add: Set_def)
next
  case (Inr r)
  then obtain fn fs1 where c: "CreateTemp fs (basedir (q j) @ [''tmp'']) nm rnds = Inr (fn, fs1)"
    by (cases r) auto
  from Set_temp [OF c, of data] obtain fs2 where
    t: "fs_lookup fs fn = None" "butlast fn = basedir (q j) @ [''tmp'']"
    and w: "write_file fs1 fn data = Inr fs2"
    and l2: "\<forall>k. fs_lookup fs2 k = (if k = fn then Some (File data) else fs_lookup fs k)" by blast
  from res c w have "fs' = fs2 \<and> os_rename fs2 fn (dir j @ [nm]) = Inl e \<and> lg = [SetRenameFailed fn (dir j @ [nm])]"
    by (auto simp: Set_def Let_def split: sum.splits)
  with t l2 show ?thesis by blast
qed

text \<open>
  C19: A property written by a successful \<open>Set\<close> is read back by \<open>Get\<close> on the
  resulting state, and a successful \<open>Set\<close> logs nothing.
\<close>

theorem Set_Get:
  assumes wf: "fs_wf fs" and res: "Set j nm data rnds fs = ((None, fs'), lg)"
  shows "Get j nm fs' = Inr data \<and> lg = []"
proof -
  obtain fn fs1 where c: "CreateTemp fs (basedir (q j) @ [''tmp'']) nm rnds = Inr (fn, fs1)"
    using res by (auto simp: Set_def split: sum.splits)
  from Set_temp [OF c, of data] obtain fs2 where w: "write_file fs1 fn data = Inr fs2"
    and l2: "\<forall>k. fs_lookup fs2 k = (if k = fn then Some (File data) else fs_lookup fs k)" by blast
  from res c w have r: "os_rename fs2 fn (dir j @ [nm]) = Inr fs'" and lg: "lg = []"
    by (auto simp: Set_def Let_def split: sum.splits)
  have "fs_wf fs2" using fs_wf_Set_temp [OF wf c w] by blast
  moreover have "fs_lookup fs2 fn = Some (File data)" using l2 by simp
  ultimately have "read_file fs' (dir j @ [nm]) = Inr data" using r by (rule rename_read)
  with lg show ?thesis by (simp add: Get_def)
qed

text \<open>
  C20: A failed \<open>Set\<close> leaves the previous value of the property as it was: \<open>Get\<close>
  after the failure answers as before it, whether the value existed or not.
\<close>

theorem Set_failed_keeps:
  assumes wf: "fs_wf fs" and jd: "fs_lookup fs (dir j) = Some Dir"
    and nt: "dir j \<noteq> basedir (q j) @ [''tmp'']"
    and res: "Set j nm data rnds fs = ((Some e, fs'), lg)"
  shows "Get j nm fs' = Get j nm fs"
proof (cases "CreateTemp fs (basedir (q j) @ [''tmp'']) nm rnds")
  case (Inl x)
  with res show ?thesis by (simp add: Set_def)
next
  case (Inr r)
  then obtain fn fs1 where c: "CreateTemp fs (basedir (q j) @ [''tmp'']) nm rnds = Inr (fn, fs1)"
    by (cases r) auto
  from Set_temp [OF c, of data] obtain fs2 where
    t: "fs_lookup fs fn = None" "butlast fn = basedir (q j) @ [''tmp'']"
    and w: "write_file fs1 fn data = Inr fs2"
    and l2: "\<forall>k. fs_lookup fs2 k = (if k = fn then Some (File data) else fs_lookup fs k)" by blast
  have ne: "fn \<noteq> dir j @ [nm]" using t(2) nt by auto
  from res c w have "fs' = fs2" by (auto simp: Set_def Let_def split: sum.splits)
  with l2 show ?thesis by (intro Get_frame [OF wf jd t(1) ne]) simp
qed

text \<open>
  C16: Atomic property write: in every state \<open>Set\<close> passes through (after each of its
  system calls, the states a concurrent \<open>Get\<close> can observe), \<open>Get\<close> of the
  property answers either as before the \<open>Set\<close> or with the whole new value.
\<close>

theorem Set_atomic:
  assumes wf: "fs_wf fs" and jd: "fs_lookup fs (dir j) = Some Dir"
    and nt: "dir j \<noteq> basedir (q j) @ [''tmp'']"
    and s: "s \<in> set (Set_trace j nm data rnds fs)"
  shows "Get j nm s = Get j nm fs \<or> Get j nm s = Inr data"
proof -
  have "\<exists>fn fs1. CreateTemp fs (basedir (q j) @ [''tmp'']) nm rnds = Inr (fn, fs1)"
    using s by (cases "CreateTemp fs (basedir (q j) @ [''tmp'']) nm rnds") (auto simp: Set_trace_def)
  then obtain fn fs1 where c: "CreateTemp fs (basedir (q j) @ [''tmp'']) nm rnds = Inr (fn, fs1)"
    by blast
  from Set_temp [OF c, of data] obtain fs2 where
    t: "fs_lookup fs fn = None" "butlast fn = basedir (q j) @ [''tmp'']"
    and l1: "\<forall>k. fs_lookup fs1 k = (if k = fn then Some (File []) else fs_lookup fs k)"
    and w: "write_file fs1 fn data = Inr fs2"
    and l2: "\<forall>k. fs_lookup fs2 k = (if k = fn then Some (File data) else fs_lookup fs k)" by blast
  have ne: "fn \<noteq> dir j @ [nm]" using t(2) nt by auto
  have g1: "Get j nm fs1 = Get j nm fs" using l1 by (intro Get_frame [OF wf jd t(1) ne]) simp
  have g2: "Get j nm fs2 = Get j nm fs" using l2 by (intro Get_frame [OF wf jd t(1) ne]) simp
  have wf2: "fs_wf fs2" using fs_wf_Set_temp [OF wf c w] by blast
  show ?thesis
  proof (cases "os_rename fs2 fn (dir j @ [nm])")
    case (Inl x)
    with s c w have "s = fs1 \<or> s = fs2" by (simp add: Set_trace_def)
    with g1 g2 show ?thesis by blast
  next
    case (Inr fs3)
    with s c w have "s = fs1 \<or> s = fs2 \<or> s = fs3" by (simp add: Set_trace_def)
    moreover have "Get j nm fs3 = Inr data"
      using rename_read [OF wf2 _ Inr] l2 by (simp add: Get_def)
    ultimately show ?thesis using g1 g2 by blast
  qed
qed

text \<open>
  C21: A failed \<open>Set\<close> either changes nothing or leaves its temporary file. When
  the final rename fails, \<open>Set\<close> returns the error and one log line, and the
  tree differs from the one before the call in exactly one path: a fresh file in
  \<open>tmp\<close> that holds the whole value. Nothing removes it; the spec does not
  say what becomes of it.
\<close>

theorem Set_failed_leaves_temp:
  assumes "Set j nm data rnds fs = ((Some e, fs'), lg)"
  shows "(fs' = fs \<and> lg = []) \<or>
    (\<exists>fn. butlast fn = basedir (q j) @ [''tmp''] \<and> fs_lookup fs fn = None \<and>
       fs_lookup fs' fn = Some (File data) \<and> (\<forall>k. k \<noteq> fn \<longrightarrow> fs_lookup fs' k = fs_lookup fs k) \<and>
       lg = [SetRenameFailed fn (dir j @ [nm])])"
  using Set_failed_cases [OF assms] by auto

end
