(* ===== verification/Logging.thy ===== *)
theory Logging
  imports Rescue Props
begin

text \<open>
  The text of the log lines of \<open>src/pqueue/pqueue.go\<close>. The operations return
  their log lines as events (\<open>log_event\<close>, in \<open>Queue\<close>); \<open>log_line\<close> renders an
  event as the message the \<open>log\<close> package writes after its date prefix:
  \<open>log.Println\<close> formats with \<open>fmt.Sprintln\<close> (operands separated by blanks, a
  newline appended), \<open>log.Printf\<close> with \<open>fmt.Sprintf\<close>, and \<open>log\<close> adds the
  newline when the message lacks one. Error values print as the Go library
  prints them: \<open>syscall.Errno\<close> as its Linux message, the errors of
  \<open>os.Remove\<close> and \<open>os.Rename\<close> as \<open>*os.PathError\<close> and \<open>*os.LinkError\<close>,
  the error of \<open>strconv.Atoi\<close> as \<open>*strconv.NumError\<close>. A path prints as the
  string \<open>path.Join\<close> builds, from the root. \<open>log_text\<close> is what a list of
  events writes to the log, in order.
\<close>

section \<open>Strings of the Go library\<close>

definition path_str :: "path \<Rightarrow> string" where
  "path_str p = concat (map (\<lambda>c. CHR ''/'' # c) p)"

text \<open>The messages of \<open>syscall.Errno\<close> on Linux, and of the pattern error of the temp-name functions.\<close>

fun errno_text :: "errno \<Rightarrow> string" where
  "errno_text ENOENT = ''no such file or directory''"
| "errno_text EEXIST = ''file exists''"
| "errno_text ENOTEMPTY = ''directory not empty''"
| "errno_text ENOTDIR = ''not a directory''"
| "errno_text EISDIR = ''is a directory''"
| "errno_text EINVAL = ''invalid argument''"
| "errno_text EBUSY = ''device or resource busy''"
| "errno_text ESRCH = ''no such process''"
| "errno_text EPERM = ''operation not permitted''"
| "errno_text ErrPatternHasSeparator = ''pattern contains path separator''"

text \<open>
  \<open>strconv.Quote\<close> on the bytes of a name: printable ASCII as itself, the quote and
  the backslash escaped, the control characters with their C escapes or as
  \<open>\x\<close> with two lower-case hex digits. Bytes from 128 up are written as \<open>\x\<close>, which is
  what \<open>Quote\<close> does for bytes that are not part of valid UTF-8.
\<close>

definition go_quote :: "string \<Rightarrow> string" where
  "go_quote s = CHR 0x22 # concat (map (\<lambda>c.
     let n = of_char c :: nat in
      if c = CHR 0x22 then [CHR 0x5C, CHR 0x22]
      else if c = CHR 0x5C then [CHR 0x5C, CHR 0x5C]
      else if 32 \<le> n \<and> n < 127 then [c]
      else if n = 7 then [CHR 0x5C, CHR ''a''] else if n = 8 then [CHR 0x5C, CHR ''b'']
      else if n = 12 then [CHR 0x5C, CHR ''f''] else if n = 10 then [CHR 0x5C, CHR ''n'']
      else if n = 13 then [CHR 0x5C, CHR ''r''] else if n = 9 then [CHR 0x5C, CHR ''t'']
      else if n = 11 then [CHR 0x5C, CHR ''v'']
      else [CHR 0x5C, CHR ''x'', ''0123456789abcdef'' ! (n div 16), ''0123456789abcdef'' ! (n mod 16)]) s) @
     [CHR 0x22]"

text \<open>\<open>(*strconv.NumError).Error\<close> for the error \<open>strconv.Atoi\<close> returns: a range error
  for a well-formed numeral outside the 64-bit range, a syntax error otherwise.\<close>

definition atoi_error :: "string \<Rightarrow> string" where
  "atoi_error s =
     ''strconv.Atoi: parsing '' @ go_quote s @ '': '' @
     (let ds = snd (split_sign s)
      in if ds \<noteq> [] \<and> list_all (\<lambda>c. digit_val c \<le> 9) ds then ''value out of range'' else ''invalid syntax'')"

definition sprintln :: "string list \<Rightarrow> string" where
  "sprintln xs = (case xs of [] \<Rightarrow> [] | x # ys \<Rightarrow> x @ concat (map (\<lambda>y. CHR '' '' # y) ys)) @ [CHR 0x0A]"

definition log_output :: "string \<Rightarrow> string" where
  "log_output s = (if s \<noteq> [] \<and> last s = CHR 0x0A then s else s @ [CHR 0x0A])"

section \<open>The log lines\<close>

text \<open>
  The \<open>log.Printf\<close> of a failed rename in \<open>Set\<close>: the format has three \<open>%s\<close>
  verbs and the call passes two operands, so \<open>fmt\<close> writes \<open>%!s(MISSING)\<close> in
  place of the error.
\<close>

definition set_rename_log :: "path \<Rightarrow> path \<Rightarrow> string" where
  "set_rename_log fn newfn =
     log_output (''Failed to rename '' @ path_str fn @ '' to '' @ path_str newfn @ '': %!s(MISSING)'' @ [CHR 0x0A])"

fun log_line :: "queue \<Rightarrow> log_event \<Rightarrow> string" where
  "log_line qu (SetRenameFailed fn newfn) = set_rename_log fn newfn"
| "log_line qu (CouldNotRescue d) =
     log_output (sprintln [''Could not rescue dead jobs: failed to read contents of'', path_str d])"
| "log_line qu (NotAPid s) = log_output (sprintln [''Does not look like a PID:'', s, ''- error:'', atoi_error s])"
| "log_line qu (KillFailed pid e) =
     log_output (sprintln [''Kill failed for PID'', Itoa pid, ''- error:'', errno_text e])"
| "log_line qu (ProcessGone pid) = log_output (sprintln [''Process'', Itoa pid, ''has gone away''])"
| "log_line qu (RmdirFailed d e) =
     log_output (''Failed to rmdir '' @ path_str d @ '': remove '' @ path_str d @ '': '' @ errno_text e)"
| "log_line qu (CouldNotReadWorker pid d) =
     log_output (''Could not rescue dead jobs from pid '' @ Itoa pid @ '': failed to read contents of '' @
                 path_str d @ [CHR 0x0A])"
| "log_line qu (RescheduleFailed s pid e) =
     log_output (sprintln [''Failed to reschedule job'', s, ''from process'', Itoa pid, ''- error:'',
                           ''rename '' @ path_str (getWorkerDir qu pid @ [s]) @ '' '' @ path_str (getNewDir qu @ [s]) @
                             '': '' @ errno_text e])"
| "log_line qu (Rescheduled s pid) =
     log_output (sprintln [''Rescueduled job'', s, ''from process'', Itoa pid])"

definition log_text :: "queue \<Rightarrow> log_event list \<Rightarrow> string" where
  "log_text qu evs = concat (map (log_line qu) evs)"

section \<open>Properties of the log\<close>

lemma quote_digit: "n < 256 \<Longrightarrow> ''0123456789abcdef'' ! (n div 16) \<in> set ''0123456789abcdef'' \<and>
  ''0123456789abcdef'' ! (n mod 16) \<in> set ''0123456789abcdef''"
  by (intro conjI nth_mem) simp_all

lemma go_quote_no_newline: "CHR 0x0A \<notin> set (go_quote s)"
proof -
  have "CHR 0x0A \<notin> set (let n = of_char c :: nat in
      if c = CHR 0x22 then [CHR 0x5C, CHR 0x22]
      else if c = CHR 0x5C then [CHR 0x5C, CHR 0x5C]
      else if 32 \<le> n \<and> n < 127 then [c]
      else if n = 7 then [CHR 0x5C, CHR ''a''] else if n = 8 then [CHR 0x5C, CHR ''b'']
      else if n = 12 then [CHR 0x5C, CHR ''f''] else if n = 10 then [CHR 0x5C, CHR ''n'']
      else if n = 13 then [CHR 0x5C, CHR ''r''] else if n = 9 then [CHR 0x5C, CHR ''t'']
      else if n = 11 then [CHR 0x5C, CHR ''v'']
      else [CHR 0x5C, CHR ''x'', ''0123456789abcdef'' ! (n div 16), ''0123456789abcdef'' ! (n mod 16)])" for c
  proof -
    have lt: "(of_char c :: nat) < 256" by (rule nat_of_char_less_256)
    have ne: "CHR 0x0A \<noteq> c" if "32 \<le> (of_char c :: nat)"
      using that by auto
    have d: "''0123456789abcdef'' ! (of_char c div 16) \<noteq> CHR 0x0A"
      "''0123456789abcdef'' ! (of_char c mod 16) \<noteq> CHR 0x0A"
      using quote_digit [OF lt] by auto
    show ?thesis using ne d by (simp add: Let_def)
  qed
  then show ?thesis by (auto simp: go_quote_def)
qed

lemma atoi_error_no_newline: "CHR 0x0A \<notin> set (atoi_error s)"
  using go_quote_no_newline [of s] by (auto simp: atoi_error_def Let_def)

lemma log_text_member: "ev \<in> set evs \<Longrightarrow> sublist (log_line qu ev) (log_text qu evs)"
proof -
  assume "ev \<in> set evs"
  then obtain xs ys where "evs = xs @ ev # ys" by (meson split_list)
  then show ?thesis by (auto simp: log_text_def sublist_def)
qed



end
