(* ===== verification/Concurrent.thy ===== *)
theory Concurrent
  imports Queue
begin

text \<open>
  Concurrent workers calling \<open>(*Queue).Take\<close> (\<open>src/pqueue/pqueue.go\<close>): the
  loop of \<open>Take\<close> as a process whose steps are its system calls (the listing of
  \<open>new\<close> and the rename into the owner slot), and a system in which the steps of
  any number of workers interleave. The lemmas show that the sequential model
  \<open>Take\<close> is one run of the process, and that under every interleaving a job is
  never held by two workers: the spec's at-most-one-owner property, which the
  code gets from the atomicity of \<open>rename\<close> and the retry on \<open>ENOENT\<close>.
\<close>

section \<open>Take as a process\<close>

text \<open>
  The states of one call of \<open>Take\<close> between its system calls: about to list
  \<open>new\<close>, holding the listing, or returned with Go's result. One rule per branch of
  the loop body; the rule for the rename has the name \<open>rand.Intn\<close> picks, any
  listed name (\<open>Intn\<close> can answer every index).
\<close>

datatype take_pc = TStart | TListed "name list" | TReturned "errno + job option"

inductive take_step :: "int \<Rightarrow> queue \<Rightarrow> take_pc \<times> fs \<Rightarrow> take_pc \<times> fs \<Rightarrow> bool" for pid qu where
  list_error: "readdirnames fs (basedir qu @ [''new'']) = (names, Some e) \<Longrightarrow>
     take_step pid qu (TStart, fs) (TReturned (Inl e), fs)"
| list_ok: "readdirnames fs (basedir qu @ [''new'']) = (names, None) \<Longrightarrow>
     take_step pid qu (TStart, fs) (TListed names, fs)"
| none_left: "take_step pid qu (TListed [], fs) (TReturned (Inr None), fs)"
| taken: "x \<in> set names \<Longrightarrow>
     os_rename fs (basedir qu @ [''new'', x]) (basedir qu @ mycur pid @ [x]) = Inr fs' \<Longrightarrow>
     take_step pid qu (TListed names, fs)
       (TReturned (Inr (Some \<lparr>Basename = x, dir = basedir qu @ mycur pid @ [x], q = qu\<rparr>)), fs')"
| retry: "x \<in> set names \<Longrightarrow>
     os_rename fs (basedir qu @ [''new'', x]) (basedir qu @ mycur pid @ [x]) = Inl e \<Longrightarrow> IsNotExist e \<Longrightarrow>
     take_step pid qu (TListed names, fs) (TStart, fs)"
| rename_error: "x \<in> set names \<Longrightarrow>
     os_rename fs (basedir qu @ [''new'', x]) (basedir qu @ mycur pid @ [x]) = Inl e \<Longrightarrow> \<not> IsNotExist e \<Longrightarrow>
     take_step pid qu (TListed names, fs) (TReturned (Inl e), fs)"

text \<open>
  Many workers, one per process id, each running \<open>Take\<close> and calling it again
  once it has returned; a step of the system is a step of any one worker, so the
  system's runs are all the interleavings of the workers' system calls.
\<close>

type_synonym workers = "int \<Rightarrow> take_pc"

inductive take_sys :: "queue \<Rightarrow> workers \<times> fs \<Rightarrow> workers \<times> fs \<Rightarrow> bool" for qu where
  step: "- (2 ^ 63) \<le> pid \<Longrightarrow> pid < 2 ^ 63 \<Longrightarrow> take_step pid qu (pcs pid, fs) (c, fs') \<Longrightarrow>
     take_sys qu (pcs, fs) (pcs(pid := c), fs')"
| call: "pcs pid = TReturned r \<Longrightarrow> take_sys qu (pcs, fs) (pcs(pid := TStart), fs)"

section \<open>Ownership of a job name\<close>

text \<open>Where the job named \<open>x\<close> is held: \<open>None\<close> for \<open>new\<close>, \<open>Some s\<close> for the owner slot
  \<open>cur/s\<close>; and the check that no held name has two places.\<close>

definition owners :: "queue \<Rightarrow> fs \<Rightarrow> name \<Rightarrow> name option list" where
  "owners qu fs x =
     (if fs_lookup fs (basedir qu @ [''new'', x]) = None then [] else [None]) @
     map Some (filter (\<lambda>s. fs_lookup fs (basedir qu @ [''cur'', s, x]) \<noteq> None)
                      (children fs (basedir qu @ [''cur''])))"

definition held_names :: "queue \<Rightarrow> fs \<Rightarrow> name list" where
  "held_names qu fs =
     children fs (basedir qu @ [''new'']) @
     concat (map (\<lambda>s. children fs (basedir qu @ [''cur'', s])) (children fs (basedir qu @ [''cur''])))"

definition single_owner :: "queue \<Rightarrow> fs \<Rightarrow> bool" where
  "single_owner qu fs = list_all (\<lambda>x. length (owners qu fs x) \<le> 1) (held_names qu fs)"

definition owner_unique :: "queue \<Rightarrow> fs \<Rightarrow> bool" where
  "owner_unique qu fs \<longleftrightarrow>
    (\<forall>x s. fs_lookup fs (basedir qu @ [''new'', x]) \<noteq> None \<longrightarrow> fs_lookup fs (basedir qu @ [''cur'', s, x]) = None) \<and>
    (\<forall>x s t. fs_lookup fs (basedir qu @ [''cur'', s, x]) \<noteq> None \<longrightarrow>
             fs_lookup fs (basedir qu @ [''cur'', t, x]) \<noteq> None \<longrightarrow> s = t)"

text \<open>The invariant of the system: the tree is well-formed, no job has two holders,
  and every worker that returned a job still holds it in its own slot.\<close>

definition take_inv :: "queue \<Rightarrow> workers \<times> fs \<Rightarrow> bool" where
  "take_inv qu st \<longleftrightarrow> fs_wf (snd st) \<and> owner_unique qu (snd st) \<and>
    (\<forall>p j. fst st p = TReturned (Inr (Some j)) \<longrightarrow>
       - (2 ^ 63) \<le> p \<and> p < 2 ^ 63 \<and> dir j = basedir qu @ mycur p @ [Basename j] \<and>
       fs_lookup (snd st) (basedir qu @ mycur p @ [Basename j]) \<noteq> None)"

section \<open>Invariant and properties\<close>

lemma length_le_1_iff: "distinct xs \<Longrightarrow> length xs \<le> 1 \<longleftrightarrow> (\<forall>a \<in> set xs. \<forall>b \<in> set xs. a = b)"
proof (induction xs)
  case Nil
  then show ?case by simp
next
  case (Cons y ys)
  then show ?case by (cases ys) auto
qed

lemma slot_exists:
  assumes "fs_wf fs" and "fs_lookup fs (b @ [c, s, x]) \<noteq> None"
  shows "s \<in> set (children fs (b @ [c]))"
proof -
  have "fs_lookup fs (butlast (b @ [c, s, x])) = Some Dir" using assms by (rule fs_wf_parent) simp
  then show ?thesis by (simp add: children_iff butlast_append)
qed

lemma distinct_owners: "fs_wf fs \<Longrightarrow> distinct (owners qu fs x)"
  by (simp add: owners_def distinct_map distinct_children fs_wf_def)

lemma set_owners:
  assumes wf: "fs_wf fs"
  shows "a \<in> set (owners qu fs x) \<longleftrightarrow>
     (a = None \<and> fs_lookup fs (basedir qu @ [''new'', x]) \<noteq> None) \<or>
     (\<exists>s. a = Some s \<and> fs_lookup fs (basedir qu @ [''cur'', s, x]) \<noteq> None)"
proof -
  let ?P = "\<lambda>s. fs_lookup fs (basedir qu @ [''cur'', s, x]) \<noteq> None"
  have m: "a \<in> set (map Some (filter ?P (children fs (basedir qu @ [''cur''])))) \<longleftrightarrow> (\<exists>s. a = Some s \<and> ?P s)"
  proof
    assume "\<exists>s. a = Some s \<and> ?P s"
    then obtain s where "a = Some s" "?P s" by blast
    moreover from \<open>?P s\<close> have "s \<in> set (children fs (basedir qu @ [''cur'']))"
      by (rule slot_exists [OF wf])
    ultimately show "a \<in> set (map Some (filter ?P (children fs (basedir qu @ [''cur'']))))" by simp
  qed auto
  show ?thesis unfolding owners_def set_append Un_iff m by auto
qed

lemma held_names_iff:
  assumes wf: "fs_wf fs" and ne: "owners qu fs x \<noteq> []"
  shows "x \<in> set (held_names qu fs)"
proof -
  from ne obtain a where "a \<in> set (owners qu fs x)" by (cases "owners qu fs x") auto
  then consider "fs_lookup fs (basedir qu @ [''new'', x]) \<noteq> None"
    | s where "fs_lookup fs (basedir qu @ [''cur'', s, x]) \<noteq> None"
    using set_owners [OF wf] by blast
  then show ?thesis
  proof cases
    case 1
    then show ?thesis by (simp add: held_names_def children_iff)
  next
    case (2 s)
    then have "s \<in> set (children fs (basedir qu @ [''cur'']))" by (rule slot_exists [OF wf])
    moreover have "x \<in> set (children fs (basedir qu @ [''cur'', s]))" using 2 by (simp add: children_iff)
    ultimately show ?thesis by (auto simp: held_names_def)
  qed
qed

lemma single_owner_eq_formula:
  assumes wf: "fs_wf fs"
  shows "single_owner qu fs \<longleftrightarrow>
    (\<forall>x s. fs_lookup fs (basedir qu @ [''new'', x]) \<noteq> None \<longrightarrow> fs_lookup fs (basedir qu @ [''cur'', s, x]) = None) \<and>
    (\<forall>x s t. fs_lookup fs (basedir qu @ [''cur'', s, x]) \<noteq> None \<longrightarrow>
             fs_lookup fs (basedir qu @ [''cur'', t, x]) \<noteq> None \<longrightarrow> s = t)" (is "_ \<longleftrightarrow> ?R")
proof -
  have "single_owner qu fs \<longleftrightarrow> (\<forall>x. length (owners qu fs x) \<le> 1)"
    using held_names_iff [OF wf] by (force simp: single_owner_def list_all_iff)
  also have "\<dots> \<longleftrightarrow> (\<forall>x. \<forall>a \<in> set (owners qu fs x). \<forall>b \<in> set (owners qu fs x). a = b)"
    using length_le_1_iff [OF distinct_owners [OF wf]] by blast
  also have "\<dots> \<longleftrightarrow> ?R" (is "?L \<longleftrightarrow> _")
  proof
    assume L: ?L
    show ?R
    proof (intro conjI allI impI)
      fix x s :: name assume "fs_lookup fs (basedir qu @ [''new'', x]) \<noteq> None"
      moreover have "\<forall>a \<in> set (owners qu fs x). \<forall>b \<in> set (owners qu fs x). a = b" using L by blast
      ultimately show "fs_lookup fs (basedir qu @ [''cur'', s, x]) = None"
        using set_owners [OF wf, of None qu x] set_owners [OF wf, of "Some s" qu x] by auto
    next
      fix x s t :: name assume "fs_lookup fs (basedir qu @ [''cur'', s, x]) \<noteq> None"
        "fs_lookup fs (basedir qu @ [''cur'', t, x]) \<noteq> None"
      moreover have "\<forall>a \<in> set (owners qu fs x). \<forall>b \<in> set (owners qu fs x). a = b" using L by blast
      ultimately show "s = t"
        using set_owners [OF wf, of "Some s" qu x] set_owners [OF wf, of "Some t" qu x] by auto
    qed
  next
    assume R: ?R
    show ?L
    proof (intro allI ballI)
      fix x a b assume a: "a \<in> set (owners qu fs x)" and b: "b \<in> set (owners qu fs x)"
      have one: "a' = b'" if "fs_lookup fs (basedir qu @ [''cur'', s, x]) \<noteq> None" "a' = Some s"
        "fs_lookup fs (basedir qu @ [''cur'', t, x]) \<noteq> None" "b' = Some t" for a' b' s t
        using R that by blast
      from a b R show "a = b" unfolding set_owners [OF wf] by (elim disjE exE conjE) (auto intro: one)
    qed
  qed
  finally show ?thesis .
qed

lemma single_owner_eq: "fs_wf fs \<Longrightarrow> single_owner qu fs \<longleftrightarrow> owner_unique qu fs"
  by (simp add: single_owner_eq_formula owner_unique_def)

text \<open>
  The executable check \<open>single_owner\<close> decides the uniqueness statement: on a
  well-formed tree it holds exactly when no job name is both in \<open>new\<close> and in an
  owner slot, and no job name is in two owner slots.
\<close>

theorem single_owner_iff:
  assumes wf: "fs_wf fs"
  shows "single_owner qu fs \<longleftrightarrow>
    (\<forall>x s. fs_lookup fs (basedir qu @ [''new'', x]) \<noteq> None \<longrightarrow> fs_lookup fs (basedir qu @ [''cur'', s, x]) = None) \<and>
    (\<forall>x s t. fs_lookup fs (basedir qu @ [''cur'', s, x]) \<noteq> None \<longrightarrow>
             fs_lookup fs (basedir qu @ [''cur'', t, x]) \<noteq> None \<longrightarrow> s = t)"
  using single_owner_eq [OF wf] by (simp add: owner_unique_def)

text \<open>The rename of a successful \<open>Take\<close>: what the tree holds afterwards below \<open>new\<close>
  and the owner slots.\<close>

lemma take_rename_lookups:
  assumes r: "os_rename fs (basedir qu @ [''new'', x]) (basedir qu @ [''cur'', P, x]) = Inr fs'"
  shows "fs_lookup fs (basedir qu @ [''new'', x]) \<noteq> None \<and>
    fs_lookup fs' (basedir qu @ [''new'', y]) = (if y = x then None else fs_lookup fs (basedir qu @ [''new'', y])) \<and>
    fs_lookup fs' (basedir qu @ [''cur'', s, y]) =
      (if s = P \<and> y = x then fs_lookup fs (basedir qu @ [''new'', x]) else fs_lookup fs (basedir qu @ [''cur'', s, y]))"
proof -
  have "basedir qu @ [''new'', x] \<noteq> basedir qu @ [''cur'', P, x]" by simp
  from os_rename_moved [OF r this] have m: "fs' = move fs (basedir qu @ [''new'', x]) (basedir qu @ [''cur'', P, x])"
    and ex: "fs_lookup fs (basedir qu @ [''new'', x]) \<noteq> None" by auto
  show ?thesis using ex by (auto simp: m fs_lookup_move prefix_def)
qed

lemma owner_unique_take:
  assumes ou: "owner_unique qu fs"
    and r: "os_rename fs (basedir qu @ [''new'', x]) (basedir qu @ [''cur'', P, x]) = Inr fs'"
  shows "owner_unique qu fs' \<and> fs_lookup fs (basedir qu @ [''cur'', P, x]) = None"
proof -
  note L = take_rename_lookups [OF r]
  from L ou have free: "fs_lookup fs (basedir qu @ [''cur'', s, x]) = None" for s
    by (simp add: owner_unique_def)
  have "owner_unique qu fs'"
    unfolding owner_unique_def
  proof (intro conjI allI impI)
    fix y s assume hy: "fs_lookup fs' (basedir qu @ [''new'', y]) \<noteq> None"
    then have "y \<noteq> x" and "fs_lookup fs (basedir qu @ [''new'', y]) \<noteq> None"
      using L [of y] by (auto split: if_splits)
    moreover have "\<forall>x s. fs_lookup fs (basedir qu @ [''new'', x]) \<noteq> None \<longrightarrow> fs_lookup fs (basedir qu @ [''cur'', s, x]) = None"
      using ou by (simp add: owner_unique_def)
    ultimately show "fs_lookup fs' (basedir qu @ [''cur'', s, y]) = None"
      using L [of y s] by simp
  next
    fix y s t
    assume hs: "fs_lookup fs' (basedir qu @ [''cur'', s, y]) \<noteq> None"
      and ht: "fs_lookup fs' (basedir qu @ [''cur'', t, y]) \<noteq> None"
    have A: "(s = P \<and> y = x) \<or> fs_lookup fs (basedir qu @ [''cur'', s, y]) \<noteq> None"
      using hs L [of y s] by (cases "s = P \<and> y = x") simp_all
    have B: "(t = P \<and> y = x) \<or> fs_lookup fs (basedir qu @ [''cur'', t, y]) \<noteq> None"
      using ht L [of y t] by (cases "t = P \<and> y = x") simp_all
    have uniq: "\<forall>x s t. fs_lookup fs (basedir qu @ [''cur'', s, x]) \<noteq> None \<longrightarrow>
             fs_lookup fs (basedir qu @ [''cur'', t, x]) \<noteq> None \<longrightarrow> s = t"
      using ou by (simp add: owner_unique_def)
    from A show "s = t"
    proof
      assume sP: "s = P \<and> y = x"
      from B show ?thesis
      proof
        assume "t = P \<and> y = x" with sP show ?thesis by simp
      next
        assume "fs_lookup fs (basedir qu @ [''cur'', t, y]) \<noteq> None"
        with sP free [of t] show ?thesis by simp
      qed
    next
      assume s0: "fs_lookup fs (basedir qu @ [''cur'', s, y]) \<noteq> None"
      from B show ?thesis
      proof
        assume "t = P \<and> y = x" with s0 free [of s] show ?thesis by simp
      next
        assume "fs_lookup fs (basedir qu @ [''cur'', t, y]) \<noteq> None"
        with s0 uniq show ?thesis by blast
      qed
    qed
  qed
  with free show ?thesis by simp
qed

lemma take_step_fs:
  assumes "take_step pid qu (c, fs) (c', fs')"
  shows "fs' = fs \<and> (\<forall>j. c' \<noteq> TReturned (Inr (Some j))) \<or>
    (\<exists>x names. c = TListed names \<and> x \<in> set names \<and>
       os_rename fs (basedir qu @ [''new'', x]) (basedir qu @ [''cur'', Itoa pid, x]) = Inr fs' \<and>
       c' = TReturned (Inr (Some \<lparr>Basename = x, dir = basedir qu @ [''cur'', Itoa pid, x], q = qu\<rparr>)))"
  using assms by (cases rule: take_step.cases) (auto simp: mycur_def)

lemma take_sys_inv:
  assumes st: "take_sys qu (pcs, fs) (pcs', fs')" and inv: "take_inv qu (pcs, fs)"
  shows "take_inv qu (pcs', fs')"
  using st
proof (cases rule: take_sys.cases)
  case (step pid c)
  note pcs' = \<open>pcs' = pcs(pid := c)\<close>
  note ts = \<open>take_step pid qu (pcs pid, fs) (c, fs')\<close>
  note rng = \<open>- (2 ^ 63) \<le> pid\<close> \<open>pid < 2 ^ 63\<close>
  from take_step_fs [OF ts] show ?thesis
  proof
    assume "fs' = fs \<and> (\<forall>j. c \<noteq> TReturned (Inr (Some j)))"
    with inv pcs' show ?thesis by (auto simp: take_inv_def)
  next
    assume "\<exists>x names. pcs pid = TListed names \<and> x \<in> set names \<and>
       os_rename fs (basedir qu @ [''new'', x]) (basedir qu @ [''cur'', Itoa pid, x]) = Inr fs' \<and>
       c = TReturned (Inr (Some \<lparr>Basename = x, dir = basedir qu @ [''cur'', Itoa pid, x], q = qu\<rparr>))"
    then obtain x where r: "os_rename fs (basedir qu @ [''new'', x]) (basedir qu @ [''cur'', Itoa pid, x]) = Inr fs'"
      and c: "c = TReturned (Inr (Some \<lparr>Basename = x, dir = basedir qu @ [''cur'', Itoa pid, x], q = qu\<rparr>))"
      by blast
    note L = take_rename_lookups [OF r]
    from inv have wf: "fs_wf fs" and ou: "owner_unique qu fs" by (auto simp: take_inv_def)
    have wf': "fs_wf fs'" using wf r by (rule fs_wf_os_rename)
    have ou': "owner_unique qu fs'" using owner_unique_take [OF ou r] by blast
    have old: "fs_lookup fs' (basedir qu @ [''cur'', s, y]) \<noteq> None"
      if "fs_lookup fs (basedir qu @ [''cur'', s, y]) \<noteq> None" for s y
      using that L [of y s] by (cases "s = Itoa pid \<and> y = x") simp_all
    have mine: "fs_lookup fs' (basedir qu @ [''cur'', Itoa pid, x]) \<noteq> None" using L [of x "Itoa pid"] by simp
    have "\<forall>p j. pcs' p = TReturned (Inr (Some j)) \<longrightarrow>
       - (2 ^ 63) \<le> p \<and> p < 2 ^ 63 \<and> dir j = basedir qu @ mycur p @ [Basename j] \<and>
       fs_lookup fs' (basedir qu @ mycur p @ [Basename j]) \<noteq> None"
    proof (intro allI impI)
      fix p j assume pj: "pcs' p = TReturned (Inr (Some j))"
      show "- (2 ^ 63) \<le> p \<and> p < 2 ^ 63 \<and> dir j = basedir qu @ mycur p @ [Basename j] \<and>
            fs_lookup fs' (basedir qu @ mycur p @ [Basename j]) \<noteq> None"
      proof (cases "p = pid")
        case True
        with pj pcs' c rng mine show ?thesis by (auto simp: mycur_def)
      next
        case False
        with pj pcs' have "pcs p = TReturned (Inr (Some j))" by simp
        with inv have "- (2 ^ 63) \<le> p \<and> p < 2 ^ 63 \<and> dir j = basedir qu @ mycur p @ [Basename j] \<and>
            fs_lookup fs (basedir qu @ mycur p @ [Basename j]) \<noteq> None" by (simp add: take_inv_def)
        with old show ?thesis by (auto simp: mycur_def)
      qed
    qed
    with wf' ou' show ?thesis by (simp add: take_inv_def)
  qed
next
  case (call pid r)
  with inv show ?thesis by (auto simp: take_inv_def)
qed

lemma take_sys_reach_inv:
  "(take_sys qu)\<^sup>*\<^sup>* st st' \<Longrightarrow> take_inv qu st \<Longrightarrow> take_inv qu st'"
proof (induction rule: rtranclp_induct)
  case base
  then show ?case .
next
  case (step st1 st2)
  then show ?case by (metis surj_pair take_sys_inv)
qed

lemma Itoa_inj_on_int64:
  "- (2 ^ 63) \<le> p \<Longrightarrow> p < 2 ^ 63 \<Longrightarrow> - (2 ^ 63) \<le> p' \<Longrightarrow> p' < 2 ^ 63 \<Longrightarrow> Itoa p = Itoa p' \<Longrightarrow> p = p'"
  by (metis Atoi_Itoa option.inject)

text \<open>
  C2: At most one owner under every interleaving: starting from a well-formed tree
  in which no job has two holders, with every worker about to call \<open>Take\<close>, in
  every state reachable by interleaving the system calls of any number of
  workers, the tree is well-formed, no job has two holders, and no two workers
  have returned jobs of the same name.
\<close>

theorem take_sys_at_most_one_owner:
  assumes run: "(take_sys qu)\<^sup>*\<^sup>* (pcs0, fs0) (pcs, fs)"
    and wf: "fs_wf fs0" and so: "single_owner qu fs0" and start: "\<forall>p. pcs0 p = TStart"
  shows "fs_wf fs \<and> single_owner qu fs \<and>
    (\<forall>p p' j j'. pcs p = TReturned (Inr (Some j)) \<longrightarrow> pcs p' = TReturned (Inr (Some j')) \<longrightarrow>
       Basename j = Basename j' \<longrightarrow> p = p')"
proof -
  have "take_inv qu (pcs0, fs0)"
    using wf so start by (simp add: take_inv_def single_owner_eq)
  with run have inv: "take_inv qu (pcs, fs)" by (rule take_sys_reach_inv)
  then have wf': "fs_wf fs" and ou: "owner_unique qu fs" by (auto simp: take_inv_def)
  have "p = p'" if "pcs p = TReturned (Inr (Some j))" "pcs p' = TReturned (Inr (Some j'))"
    "Basename j = Basename j'" for p p' j j'
  proof -
    from inv that(1) have p: "- (2 ^ 63) \<le> p" "p < 2 ^ 63"
      "dir j = basedir qu @ mycur p @ [Basename j]" "fs_lookup fs (basedir qu @ mycur p @ [Basename j]) \<noteq> None"
      by (simp_all add: take_inv_def)
    from inv that(2) have p': "- (2 ^ 63) \<le> p'" "p' < 2 ^ 63"
      "dir j' = basedir qu @ mycur p' @ [Basename j']" "fs_lookup fs (basedir qu @ mycur p' @ [Basename j']) \<noteq> None"
      by (simp_all add: take_inv_def)
    from p(4) p'(4) that(3)
    have "fs_lookup fs (basedir qu @ [''cur'', Itoa p, Basename j]) \<noteq> None"
      "fs_lookup fs (basedir qu @ [''cur'', Itoa p', Basename j]) \<noteq> None"
      by (simp_all add: mycur_def)
    with ou have "Itoa p = Itoa p'" unfolding owner_unique_def by blast
    with p(1,2) p'(1,2) show ?thesis by (rule Itoa_inj_on_int64)
  qed
  with wf' ou show ?thesis by (simp add: single_owner_eq)
qed

text \<open>
  The function \<open>Take\<close> is one schedule of the process: whenever \<open>Take\<close>
  returns, the process model reaches the same result and the same tree by a
  run of its steps with no other worker in between.
\<close>

lemma Take_refines_take_step:
  "Take n pid qu rnd fs = Some (r, fs') \<Longrightarrow> (take_step pid qu)\<^sup>*\<^sup>* (TStart, fs) (TReturned r, fs')"
proof (induction n arbitrary: rnd fs)
  case 0
  then show ?case by simp
next
  case (Suc n)
  let ?N = "basedir qu @ [''new'']"
  obtain names err where rd: "readdirnames fs ?N = (names, err)" by fastforce
  show ?case
  proof (cases err)
    case (Some e)
    with Suc.prems rd have "r = Inl e" "fs' = fs" by auto
    with rd Some show ?thesis by (blast intro: take_step.list_error)
  next
    case None
    with rd have ls: "take_step pid qu (TStart, fs) (TListed names, fs)" by (blast intro: take_step.list_ok)
    show ?thesis
    proof (cases "names = []")
      case True
      with Suc.prems rd None have "r = Inr None" "fs' = fs" by auto
      with ls True show ?thesis
        by (metis converse_rtranclp_into_rtranclp r_into_rtranclp take_step.none_left)
    next
      case False
      let ?x = "names ! Intn rnd 0 (length names)"
      have x: "?x \<in> set names" using False by (rule Take_pick)
      have mc: "basedir qu @ mycur pid @ [?x] = basedir qu @ [''cur'', Itoa pid, ?x]" by (simp add: mycur_def)
      show ?thesis
      proof (cases "os_rename fs (basedir qu @ [''new'', ?x]) (basedir qu @ mycur pid @ [?x])")
        case (Inl e)
        show ?thesis
        proof (cases "IsNotExist e")
          case True
          with Suc.prems rd None False Inl have "Take n pid qu (\<lambda>k. rnd (Suc k)) fs = Some (r, fs')"
            by (simp add: Let_def)
          then have "(take_step pid qu)\<^sup>*\<^sup>* (TStart, fs) (TReturned r, fs')" by (rule Suc.IH)
          moreover have "take_step pid qu (TListed names, fs) (TStart, fs)"
            using x Inl True by (rule take_step.retry)
          ultimately show ?thesis using ls by (meson converse_rtranclp_into_rtranclp)
        next
          case False
          with Suc.prems rd None \<open>names \<noteq> []\<close> Inl have "r = Inl e" "fs' = fs" by (auto simp: Let_def)
          moreover have "take_step pid qu (TListed names, fs) (TReturned (Inl e), fs)"
            using x Inl False by (rule take_step.rename_error)
          ultimately show ?thesis using ls by (meson converse_rtranclp_into_rtranclp r_into_rtranclp)
        qed
      next
        case (Inr fs1)
        with Suc.prems rd None False
        have "r = Inr (Some \<lparr>Basename = ?x, dir = basedir qu @ mycur pid @ [?x], q = qu\<rparr>)" "fs' = fs1"
          by (auto simp: Let_def)
        moreover have "take_step pid qu (TListed names, fs)
            (TReturned (Inr (Some \<lparr>Basename = ?x, dir = basedir qu @ mycur pid @ [?x], q = qu\<rparr>)), fs1)"
          using x Inr by (rule take_step.taken)
        ultimately show ?thesis using ls by (meson converse_rtranclp_into_rtranclp r_into_rtranclp)
      qed
    qed
  qed
qed

section \<open>Races and livelock\<close>

text \<open>
  C8: A worker that loses a race retries. When every job a worker listed has
  since been renamed out of \<open>new\<close> by other workers, the worker's next step
  goes back to listing \<open>new\<close>: it does not return an error, does not return
  a job, and does not change the tree. This is the spec's rule that a source
  vanished under \<open>Take\<close> is swallowed and retried.
\<close>

theorem take_race_loser_retries:
  assumes wf: "fs_wf fs" and new: "fs_lookup fs (basedir qu @ [''new'']) = Some Dir"
    and listed: "names \<noteq> []" and gone: "\<forall>x \<in> set names. fs_lookup fs (basedir qu @ [''new'', x]) = None"
    and st: "take_step pid qu (TListed names, fs) (c, fs')"
  shows "c = TStart \<and> fs' = fs"
proof -
  have enoent: "os_rename fs (basedir qu @ [''new'', x]) d = Inl ENOENT" if "x \<in> set names" for x d
    using wf new gone that by (intro os_rename_src_missing) (simp_all add: butlast_append)
  from st show ?thesis
  proof cases
    case none_left
    with listed show ?thesis by simp
  next
    case (taken x)
    with enoent [of x] show ?thesis by simp
  next
    case (retry x e)
    then show ?thesis by simp
  next
    case (rename_error x e)
    with enoent [of x] show ?thesis by (simp add: IsNotExist_def)
  qed
qed

text \<open>
  C9: Livelock of a worker without its owner slot. When \<open>cur/<pid>\<close> is missing
  and \<open>new\<close> holds jobs, the rename of each listed job fails with \<open>ENOENT\<close>
  although the job is there (the missing directory is the destination's
  parent), \<open>Take\<close> reads this as a lost race, and in every state the worker
  reaches from the start of a call it has not returned, has not changed the
  tree, and can still take a step: the call runs forever.
\<close>

theorem take_livelock:
  assumes wf: "fs_wf fs" and new: "fs_lookup fs (basedir qu @ [''new'']) = Some Dir"
    and work: "children fs (basedir qu @ [''new'']) \<noteq> []"
    and cur: "fs_lookup fs (basedir qu @ [''cur'']) = Some Dir"
    and noslot: "fs_lookup fs (basedir qu @ mycur pid) = None"
    and run: "(take_step pid qu)\<^sup>*\<^sup>* (TStart, fs) (c, fs')"
  shows "fs' = fs \<and> (\<forall>r. c \<noteq> TReturned r) \<and> (\<exists>c''. take_step pid qu (c, fs') (c'', fs')) \<and>
    (\<forall>x \<in> set (children fs (basedir qu @ [''new''])).
       fs_lookup fs (basedir qu @ [''new'', x]) \<noteq> None \<and>
       os_rename fs (basedir qu @ [''new'', x]) (basedir qu @ mycur pid @ [x]) = Inl ENOENT)"
proof -
  let ?N = "children fs (basedir qu @ [''new''])"
  have src: "fs_lookup fs (basedir qu @ [''new'', x]) \<noteq> None" if "x \<in> set ?N" for x
    using that by (simp add: children_iff)
  have enoent: "os_rename fs (basedir qu @ [''new'', x]) (basedir qu @ mycur pid @ [x]) = Inl ENOENT"
    if "x \<in> set ?N" for x
    using wf cur noslot src [OF that] by (rule rename_into_missing_slot)
  have rd: "readdirnames fs (basedir qu @ [''new'']) = (?N, None)" using wf new by (rule readdirnames_dir)
  have inv: "fs' = fs \<and> (c = TStart \<or> c = TListed ?N)"
    using run
  proof (induction rule: rtranclp_induct2)
    case (step c1 fs1 c2 fs2)
    then have fs1: "fs1 = fs" and c1: "c1 = TStart \<or> c1 = TListed ?N" by auto
    from step.hyps(2) [unfolded fs1] show ?case
    proof cases
      case (list_error names e)
      with rd show ?thesis by simp
    next
      case (list_ok names)
      with rd show ?thesis by simp
    next
      case none_left
      with c1 work show ?thesis by simp
    next
      case (taken x names)
      with c1 enoent [of x] show ?thesis by simp
    next
      case (retry x names e)
      then show ?thesis by simp
    next
      case (rename_error x names e)
      with c1 enoent [of x] show ?thesis by (simp add: IsNotExist_def)
    qed
  qed simp
  then have fs': "fs' = fs" and c: "c = TStart \<or> c = TListed ?N" by auto
  have "\<exists>c''. take_step pid qu (c, fs) (c'', fs)"
  proof (cases "c = TStart")
    case True
    with rd show ?thesis by (blast intro: take_step.list_ok)
  next
    case False
    with c have c: "c = TListed ?N" by simp
    have "hd ?N \<in> set ?N" using work by simp
    with enoent [of "hd ?N"] c show ?thesis
      by (blast intro: take_step.retry [where e = ENOENT] IsNotExist_def [THEN iffD2])
  qed
  with fs' c enoent src show ?thesis by auto
qed

end
