(* ===== verification/Jobs.thy ===== *)
theory Jobs
  imports Concurrent Props
begin

text \<open>
  The whole queue as a concurrent system. Every process works on the same tree:
  \<open>OpenQueue\<close> creates the subdirectories, \<open>CreateJob\<close>, \<open>Submit\<close>, \<open>Finish\<close>,
  \<open>Fail\<close> and \<open>Set\<close> act through job handles, workers run \<open>Take\<close>, and
  \<open>RescueDeadJobs\<close> moves the jobs of dead workers back to \<open>new\<close>. \<open>qstep\<close> is one
  system call of any of them. The abstraction \<open>jobs\<close> reads the tree as the
  multiset of jobs with their states (a job is a directory in \<open>tmp\<close>, \<open>new\<close>,
  \<open>cur/<pid>\<close>, \<open>done\<close> or \<open>failed\<close>); \<open>ajstep\<close> is the abstract queue: a job
  is created staged, and moves between states by \<open>jtrans\<close>. Every step of the
  system is a step of the abstract queue or leaves it unchanged; hence no job is
  lost, and a job is owned only after it was submittable. \<open>handle_ok\<close> is the
  well-formedness of a job handle, which every operation returning a handle
  establishes.
\<close>

section \<open>The abstract queue\<close>

datatype jstate = Staged | Submittable | Owned name | Completed | Failed

fun jpath :: "queue \<Rightarrow> name \<Rightarrow> jstate \<Rightarrow> path" where
  "jpath qu x Staged = basedir qu @ [''tmp'', x]"
| "jpath qu x Submittable = basedir qu @ [''new'', x]"
| "jpath qu x (Owned s) = basedir qu @ [''cur'', s, x]"
| "jpath qu x Completed = basedir qu @ [''done'', x]"
| "jpath qu x Failed = basedir qu @ [''failed'', x]"

definition job_dirs :: "fs \<Rightarrow> path \<Rightarrow> name list" where
  "job_dirs fs d = filter (\<lambda>x. fs_lookup fs (d @ [x]) = Some Dir) (children fs d)"

definition job_list :: "queue \<Rightarrow> fs \<Rightarrow> (name \<times> jstate) list" where
  "job_list qu fs =
     map (\<lambda>x. (x, Staged)) (job_dirs fs (basedir qu @ [''tmp''])) @
     map (\<lambda>x. (x, Submittable)) (job_dirs fs (basedir qu @ [''new''])) @
     concat (map (\<lambda>s. map (\<lambda>x. (x, Owned s)) (job_dirs fs (basedir qu @ [''cur'', s])))
                 (job_dirs fs (basedir qu @ [''cur'']))) @
     map (\<lambda>x. (x, Completed)) (job_dirs fs (basedir qu @ [''done''])) @
     map (\<lambda>x. (x, Failed)) (job_dirs fs (basedir qu @ [''failed'']))"

definition jobs :: "queue \<Rightarrow> fs \<Rightarrow> (name \<times> jstate) multiset" where
  "jobs qu fs = mset (job_list qu fs)"

text \<open>
  Reading a path below the base back as a job and its state (the inverse of
  \<open>jpath\<close>), and the well-formed job handles: a handle of this queue whose
  directory is one of the places of its job.
\<close>

fun place_of :: "path \<Rightarrow> (name \<times> jstate) option" where
  "place_of [d, x] =
     (if d = ''tmp'' then Some (x, Staged) else if d = ''new'' then Some (x, Submittable)
      else if d = ''done'' then Some (x, Completed) else if d = ''failed'' then Some (x, Failed) else None)"
| "place_of [c, s, x] = (if c = ''cur'' then Some (x, Owned s) else None)"
| "place_of _ = None"

definition handle_ok :: "queue \<Rightarrow> job \<Rightarrow> bool" where
  "handle_ok qu j \<longleftrightarrow> q j = qu \<and> take (length (basedir qu)) (dir j) = basedir qu \<and>
     map_option fst (place_of (drop (length (basedir qu)) (dir j))) = Some (Basename j)"

inductive jtrans :: "jstate \<Rightarrow> jstate \<Rightarrow> bool" where
  submit: "jtrans s Submittable"
| take: "jtrans Submittable (Owned p)"
| finish: "jtrans s Completed"
| fail: "jtrans s Failed"

inductive ajstep :: "(name \<times> jstate) multiset \<Rightarrow> (name \<times> jstate) multiset \<Rightarrow> bool" where
  create: "ajstep J (add_mset (x, Staged) J)"
| move: "(x, s) \<in># J \<Longrightarrow> jtrans s t \<Longrightarrow> ajstep J (add_mset (x, t) (J - {#(x, s)#}))"

text \<open>The tree predicate of the abstraction: the step keeps the tree well formed and is a
  step of the abstract queue or invisible to it.\<close>

abbreviation jobs_step :: "queue \<Rightarrow> fs \<Rightarrow> fs \<Rightarrow> bool" where
  "jobs_step qu fs fs' \<equiv> fs_wf fs' \<and> (jobs qu fs' = jobs qu fs \<or> ajstep (jobs qu fs) (jobs qu fs'))"

section \<open>The system of processes\<close>

text \<open>
  One system call of one process. The handle rules take a well-formed handle of
  this queue, as every handle \<open>CreateJob\<close> and \<open>Take\<close> return and
  \<open>Submit\<close>, \<open>Finish\<close> and \<open>Fail\<close> update is (\<open>handles_wellformed\<close>). \<open>Take\<close> steps are those of \<open>take_step\<close>; \<open>OpenQueue\<close>, \<open>Set\<close>
  and \<open>RescueDeadJobs\<close> contribute each of their system calls that can change
  the tree as a step of its own.
\<close>

inductive qstep :: "queue \<Rightarrow> procs \<Rightarrow> fs \<Rightarrow> fs \<Rightarrow> bool" for qu ps where
  open_dir: "d \<in> set (queue_subdirs pid) \<Longrightarrow> ensuredir (basedir qu) d fs = (r, fs') \<Longrightarrow> qstep qu ps fs fs'"
| create: "CreateJob qu pattern rnds fs = (r, fs') \<Longrightarrow> qstep qu ps fs fs'"
| submit: "handle_ok qu j \<Longrightarrow> Submit j fs = (r, fs') \<Longrightarrow> qstep qu ps fs fs'"
| take: "take_step pid qu (c, fs) (c', fs') \<Longrightarrow> qstep qu ps fs fs'"
| finish: "handle_ok qu j \<Longrightarrow> Finish j fs = (r, fs') \<Longrightarrow> qstep qu ps fs fs'"
| fail: "handle_ok qu j \<Longrightarrow> Fail j fs = (r, fs') \<Longrightarrow> qstep qu ps fs fs'"
| rescue: "ps pid = Some ESRCH \<Longrightarrow> os_rename fs (getWorkerDir qu pid @ [x]) (getNewDir qu @ [x]) = Inr fs' \<Longrightarrow>
     qstep qu ps fs fs'"
| rmdir_slot: "ps pid = Some ESRCH \<Longrightarrow> remove fs (getWorkerDir qu pid) = Inr fs' \<Longrightarrow> qstep qu ps fs fs'"
| set_create: "CreateTemp fs (basedir qu @ [''tmp'']) nm rnds = Inr (fn, fs') \<Longrightarrow> qstep qu ps fs fs'"
| set_write: "butlast fn = basedir qu @ [''tmp''] \<Longrightarrow> fs_lookup fs fn = Some (File c) \<Longrightarrow>
     write_file fs fn data = Inr fs' \<Longrightarrow> qstep qu ps fs fs'"
| set_rename: "handle_ok qu j \<Longrightarrow> butlast fn = basedir qu @ [''tmp''] \<Longrightarrow> fs_lookup fs fn = Some (File c) \<Longrightarrow>
     os_rename fs fn (dir j @ [nm]) = Inr fs' \<Longrightarrow> qstep qu ps fs fs'"

section \<open>The abstraction\<close>

lemma job_dirs_iff: "x \<in> set (job_dirs fs d) \<longleftrightarrow> fs_lookup fs (d @ [x]) = Some Dir"
  by (auto simp: job_dirs_def children_iff)

lemma distinct_job_dirs: "fs_wf fs \<Longrightarrow> distinct (job_dirs fs d)"
  by (simp add: job_dirs_def distinct_children fs_wf_def)

lemma slot_dir:
  assumes "fs_wf fs" "fs_lookup fs (basedir qu @ [''cur'', s, x]) = Some Dir"
  shows "fs_lookup fs (basedir qu @ [''cur'', s]) = Some Dir"
proof -
  have "fs_lookup fs (butlast (basedir qu @ [''cur'', s, x])) = Some Dir"
    using assms by (intro fs_wf_parent) simp_all
  then show ?thesis by (simp add: butlast_append)
qed

lemma pair_map_mem [simp]: "(x, st) \<in> set (map (\<lambda>y. (y, S)) L) \<longleftrightarrow> st = S \<and> x \<in> set L"
  by auto

lemma owned_part:
  "(x, st) \<in> set (concat (map (\<lambda>s. map (\<lambda>y. (y, Owned s)) (job_dirs fs (b @ [c, s]))) (job_dirs fs (b @ [c])))) \<longleftrightarrow>
   (\<exists>s. st = Owned s \<and> s \<in> set (job_dirs fs (b @ [c])) \<and> x \<in> set (job_dirs fs (b @ [c, s])))"
  by auto

lemma set_job_list:
  assumes wf: "fs_wf fs"
  shows "(x, st) \<in> set (job_list qu fs) \<longleftrightarrow> fs_lookup fs (jpath qu x st) = Some Dir"
proof (cases st)
  case (Owned s)
  have "(x, st) \<in> set (job_list qu fs) \<longleftrightarrow>
        s \<in> set (job_dirs fs (basedir qu @ [''cur''])) \<and> x \<in> set (job_dirs fs (basedir qu @ [''cur'', s]))"
    using owned_part [of x st fs "basedir qu" "''cur''"] Owned by (auto simp: job_list_def)
  also have "\<dots> \<longleftrightarrow> fs_lookup fs (jpath qu x st) = Some Dir"
    using slot_dir [OF wf, of qu s x] Owned by (auto simp: job_dirs_iff)
  finally show ?thesis .
qed (simp_all add: job_list_def job_dirs_iff owned_part del: set_map set_concat)

lemma distinct_concat_map:
  "distinct xs \<Longrightarrow> (\<forall>s. distinct (f s)) \<Longrightarrow> (\<forall>s t. s \<noteq> t \<longrightarrow> set (f s) \<inter> set (f t) = {}) \<Longrightarrow>
   distinct (concat (map f xs))"
proof (induction xs)
  case (Cons a xs)
  have "False" if y: "y \<in> set (f a)" "b \<in> set xs" "y \<in> set (f b)" for y b
  proof -
    from Cons.prems(1) y(2) have "a \<noteq> b" by auto
    with Cons.prems(3) y(1,3) show False by blast
  qed
  then have "set (f a) \<inter> set (concat (map f xs)) = {}" by auto
  with Cons show ?case by simp
qed simp

lemma distinct_job_list:
  assumes wf: "fs_wf fs"
  shows "distinct (job_list qu fs)"
proof -
  have "distinct (concat (map (\<lambda>s. map (\<lambda>x. (x, Owned s)) (job_dirs fs (basedir qu @ [''cur'', s])))
                 (job_dirs fs (basedir qu @ [''cur'']))))"
    using wf by (intro distinct_concat_map) (auto simp: distinct_job_dirs distinct_map inj_on_def)
  then show ?thesis
    using wf by (auto simp: job_list_def distinct_map distinct_job_dirs inj_on_def)
qed

lemma count_jobs:
  "fs_wf fs \<Longrightarrow> count (jobs qu fs) (x, st) = (if fs_lookup fs (jpath qu x st) = Some Dir then 1 else 0)"
  using distinct_job_list [of fs qu] set_job_list [of fs x st qu]
  by (simp add: jobs_def distinct_count_atmost_1)

lemma jobs_frame:
  assumes "fs_wf fs" "fs_wf fs'"
    and "\<forall>y u. (fs_lookup fs' (jpath qu y u) = Some Dir) = (fs_lookup fs (jpath qu y u) = Some Dir)"
  shows "jobs qu fs' = jobs qu fs"
proof (rule multiset_eqI)
  fix a :: "name \<times> jstate"
  obtain y u where "a = (y, u)" by fastforce
  with assms show "count (jobs qu fs') a = count (jobs qu fs) a" by (simp add: count_jobs)
qed

lemma jobs_add:
  assumes "fs_wf fs" "fs_wf fs'"
    and "fs_lookup fs' (jpath qu x t) = Some Dir" "fs_lookup fs (jpath qu x t) \<noteq> Some Dir"
    and "\<forall>y u. (y, u) \<noteq> (x, t) \<longrightarrow> (fs_lookup fs' (jpath qu y u) = Some Dir) = (fs_lookup fs (jpath qu y u) = Some Dir)"
  shows "jobs qu fs' = add_mset (x, t) (jobs qu fs)"
proof (rule multiset_eqI)
  fix a :: "name \<times> jstate"
  obtain y u where "a = (y, u)" by fastforce
  with assms show "count (jobs qu fs') a = count (add_mset (x, t) (jobs qu fs)) a"
    by (cases "(y, u) = (x, t)") (auto simp: count_jobs)
qed

lemma jobs_move:
  assumes "fs_wf fs" "fs_wf fs'" and st: "s \<noteq> t"
    and "fs_lookup fs (jpath qu x s) = Some Dir" "fs_lookup fs' (jpath qu x s) \<noteq> Some Dir"
    and "fs_lookup fs' (jpath qu x t) = Some Dir" "fs_lookup fs (jpath qu x t) \<noteq> Some Dir"
    and "\<forall>y u. (y, u) \<noteq> (x, s) \<longrightarrow> (y, u) \<noteq> (x, t) \<longrightarrow>
           (fs_lookup fs' (jpath qu y u) = Some Dir) = (fs_lookup fs (jpath qu y u) = Some Dir)"
  shows "(x, s) \<in># jobs qu fs \<and> jobs qu fs' = add_mset (x, t) (jobs qu fs - {#(x, s)#})"
proof
  show "(x, s) \<in># jobs qu fs" using assms by (simp add: count_jobs flip: count_greater_zero_iff)
  show "jobs qu fs' = add_mset (x, t) (jobs qu fs - {#(x, s)#})"
  proof (rule multiset_eqI)
    fix a :: "name \<times> jstate"
    obtain y u where "a = (y, u)" by fastforce
    with assms show "count (jobs qu fs') a = count (add_mset (x, t) (jobs qu fs - {#(x, s)#})) a"
      by (cases "(y, u) = (x, t)"; cases "(y, u) = (x, s)") (auto simp: count_jobs)
  qed
qed

lemma jpath_prefix: "prefix (jpath qu x s) (jpath qu y t) \<longleftrightarrow> (x, s) = (y, t)"
  by (cases s; cases t) auto

lemma os_rename_same: "os_rename fs p p = Inr fs' \<Longrightarrow> fs' = fs"
  by (auto simp: os_rename_def sys_rename_def split: sum.splits node.splits option.splits if_splits)

lemma os_rename_dst_not_dir:
  "fs_wf fs \<Longrightarrow> os_rename fs src dst = Inr fs' \<Longrightarrow> fs_lookup fs dst \<noteq> Some Dir"
  by (auto simp: os_rename_def lstat_wf_Some split: sum.splits)

text \<open>A rename between two places of a job either changes nothing the abstraction
  sees, or moves one job from the one state to the other.\<close>

lemma rename_jobs:
  assumes wf: "fs_wf fs" and r: "os_rename fs (jpath qu x s) (jpath qu x t) = Inr fs'"
  shows "jobs qu fs' = jobs qu fs \<or>
    ((x, s) \<in># jobs qu fs \<and> jobs qu fs' = add_mset (x, t) (jobs qu fs - {#(x, s)#}) \<and> s \<noteq> t)"
proof (cases "s = t")
  case True
  with r have "fs' = fs" by (simp add: os_rename_same)
  then show ?thesis by simp
next
  case False
  have ne: "jpath qu x s \<noteq> jpath qu x t" using False jpath_prefix [of qu x s x t] by auto
  from os_rename_Inr [OF r] have sr: "sys_rename fs (jpath qu x s) (jpath qu x t) = Inr fs'" .
  from sr ne have m: "fs' = move fs (jpath qu x s) (jpath qu x t)"
    by (auto simp: sys_rename_def split: sum.splits option.splits if_splits node.splits)
  have wf': "fs_wf fs'" using wf r by (rule fs_wf_os_rename)
  have dst: "fs_lookup fs (jpath qu x t) \<noteq> Some Dir" using wf r by (rule os_rename_dst_not_dir)
  have L: "fs_lookup fs' (jpath qu y u) =
      (if (y, u) = (x, t) then fs_lookup fs (jpath qu x s)
       else if (y, u) = (x, s) then None else fs_lookup fs (jpath qu y u))" for y u
    using jpath_prefix [of qu x t y u] jpath_prefix [of qu x s y u] by (auto simp: m fs_lookup_move)
  show ?thesis
  proof (cases "fs_lookup fs (jpath qu x s) = Some Dir")
    case True
    have "(x, s) \<in># jobs qu fs \<and> jobs qu fs' = add_mset (x, t) (jobs qu fs - {#(x, s)#})"
      using wf wf' False True dst L by (intro jobs_move) auto
    with False show ?thesis by simp
  next
    case nd: False
    have "jobs qu fs' = jobs qu fs"
      using wf wf' nd dst L by (intro jobs_frame) auto
    then show ?thesis by simp
  qed
qed

lemma jpath_not_subdir: "d \<in> set (queue_subdirs pid) \<Longrightarrow> jpath qu y u \<noteq> basedir qu @ d"
  by (cases u) (auto simp: queue_subdirs_def mycur_def)

lemma jpath_not_slot: "jpath qu y u \<noteq> basedir qu @ [''cur'', s]"
  by (cases u) auto

lemma prop_not_prefix_jpath: "\<not> prefix (jpath qu x st @ [nm]) (jpath qu y u)"
  by (cases st; cases u) auto

lemma jpath_ne: "jpath qu x s \<noteq> []"
  by (cases s) auto

lemma jpath_eq_iff [simp]: "jpath qu x s = jpath qu y t \<longleftrightarrow> (x, s) = (y, t)"
  by (cases s; cases t) auto

lemma jpath_eq_tmp [simp]: "jpath qu y u = basedir qu @ [''tmp'', z] \<longleftrightarrow> (y, u) = (z, Staged)"
  by (cases u) auto

lemma place_of_jpath: "place_of (drop (length (basedir qu)) (jpath qu x st)) = Some (x, st)"
  by (cases st) simp_all

lemma place_of_Some: "place_of p = Some (x, st) \<Longrightarrow> basedir qu @ p = jpath qu x st"
  by (induction p rule: place_of.induct) (auto split: if_splits)

lemma handle_ok_iff: "handle_ok qu j \<longleftrightarrow> q j = qu \<and> (\<exists>st. dir j = jpath qu (Basename j) st)"
proof
  assume h: "handle_ok qu j"
  then obtain st where p: "place_of (drop (length (basedir qu)) (dir j)) = Some (Basename j, st)"
    by (auto simp: handle_ok_def)
  have "dir j = take (length (basedir qu)) (dir j) @ drop (length (basedir qu)) (dir j)" by simp
  also have "\<dots> = jpath qu (Basename j) st" using h place_of_Some [OF p, of qu] by (simp add: handle_ok_def)
  finally show "q j = qu \<and> (\<exists>st. dir j = jpath qu (Basename j) st)" using h by (auto simp: handle_ok_def)
next
  assume "q j = qu \<and> (\<exists>st. dir j = jpath qu (Basename j) st)"
  then obtain st where "q j = qu" "dir j = jpath qu (Basename j) st" by blast
  then show "handle_ok qu j" using place_of_jpath [of qu "Basename j" st]
    by (cases st) (simp_all add: handle_ok_def)
qed

lemma handle_ok_move: "handle_ok qu j \<Longrightarrow> handle_ok qu (j\<lparr>dir := jpath qu (Basename j) st\<rparr>)"
  by (auto simp: handle_ok_iff)

section \<open>Each kind of system call refines the abstract queue\<close>

lemma jobs_unchanged:
  assumes "fs_wf fs" "fs_wf fs'" and "\<And>y u. fs_lookup fs' (jpath qu y u) = fs_lookup fs (jpath qu y u)"
  shows "jobs qu fs' = jobs qu fs"
  using assms by (intro jobs_frame) simp_all

lemma jobs_same_dirs:
  assumes "fs_wf fs" "fs_wf fs'"
    and "\<forall>y u. jpath qu y u \<noteq> p \<longrightarrow> fs_lookup fs' (jpath qu y u) = fs_lookup fs (jpath qu y u)"
    and "fs_lookup fs p \<noteq> Some Dir" "fs_lookup fs' p \<noteq> Some Dir"
  shows "jobs qu fs' = jobs qu fs"
proof (rule jobs_frame [OF assms(1,2)], intro allI)
  fix y u
  show "(fs_lookup fs' (jpath qu y u) = Some Dir) = (fs_lookup fs (jpath qu y u) = Some Dir)"
    using assms(3-5) by (cases "jpath qu y u = p") auto
qed

lemma stutter_step: "fs_wf fs \<Longrightarrow> jobs_step qu fs fs"
  by simp

lemma rename_step:
  assumes wf: "fs_wf fs" and r: "os_rename fs (jpath qu x s) (jpath qu x t) = Inr fs'" and tr: "jtrans s t"
  shows "jobs_step qu fs fs'"
proof -
  have wf': "fs_wf fs'" using wf r by (rule fs_wf_os_rename)
  from rename_jobs [OF wf r]
  have "jobs qu fs' = jobs qu fs \<or> ajstep (jobs qu fs) (jobs qu fs')"
  proof
    assume "(x, s) \<in># jobs qu fs \<and> jobs qu fs' = add_mset (x, t) (jobs qu fs - {#(x, s)#}) \<and> s \<noteq> t"
    then show ?thesis using ajstep.move [OF _ tr, where J = "jobs qu fs"] by simp
  qed simp
  with wf' show ?thesis by simp
qed

lemma job_rename_step:
  assumes wf: "fs_wf fs" and jr: "job_rename j (jpath qu (Basename j) t) fs = (r, fs')"
    and d: "dir j = jpath qu (Basename j) s" and tr: "jtrans s t"
  shows "jobs_step qu fs fs'"
proof (cases r)
  case (Inl e)
  with jr have "fs' = fs" by (auto dest: job_rename_Inl)
  with wf show ?thesis by simp
next
  case (Inr j')
  with jr d have "os_rename fs (jpath qu (Basename j) s) (jpath qu (Basename j) t) = Inr fs'"
    by (auto dest: job_rename_Inr)
  from rename_step [OF wf this tr] show ?thesis .
qed

lemma ensuredir_step:
  assumes wf: "fs_wf fs" and d: "d \<in> set (queue_subdirs pid)" and e: "ensuredir (basedir qu) d fs = (r, fs')"
  shows "jobs_step qu fs fs'"
proof (cases "mkdir fs (basedir qu @ d)")
  case (Inl e')
  with e have "fs' = fs" by (simp add: ensuredir_def split: if_splits)
  with wf show ?thesis by simp
next
  case (Inr fs1)
  with e have fs': "fs' = fs1" by (simp add: ensuredir_def)
  from mkdir_Inr [OF Inr] have "fs1 = fs @ [(basedir qu @ d, Dir)]" by simp
  then have "fs_lookup fs' (jpath qu y u) = fs_lookup fs (jpath qu y u)" for y u
    using jpath_not_subdir [OF d, of qu y u] by (simp add: fs' fs_lookup_snoc)
  moreover have wf': "fs_wf fs'" using wf Inr fs' by (blast intro: fs_wf_mkdir)
  ultimately show ?thesis using jobs_unchanged [OF wf wf'] by simp
qed

lemma CreateJob_step:
  assumes wf: "fs_wf fs" and c: "CreateJob qu pattern rnds fs = (r, fs')"
  shows "jobs_step qu fs fs'"
proof (cases "MkdirTemp fs (basedir qu @ [''tmp'']) pattern rnds")
  case (Inl e)
  with c have "fs' = fs" by (simp add: CreateJob_def)
  with wf show ?thesis by simp
next
  case (Inr res)
  obtain p fs1 where res: "res = (p, fs1)" by fastforce
  with Inr c have fs1: "fs1 = fs'" by (simp add: CreateJob_def)
  from MkdirTemp_Inr [of fs "basedir qu @ [''tmp'']" pattern rnds p fs'] Inr res fs1
  obtain pre r suf where
    p: "p = (basedir qu @ [''tmp'']) @ [pre @ r @ suf]" and mk: "mkdir fs p = Inr fs'" by blast
  from mkdir_Inr [OF mk] have fs': "fs' = fs @ [(p, Dir)]" and none: "fs_lookup fs p = None" by auto
  have wf': "fs_wf fs'" using wf mk by (rule fs_wf_mkdir)
  have pj: "p = jpath qu (pre @ r @ suf) Staged" using p by simp
  have "jobs qu fs' = add_mset (pre @ r @ suf, Staged) (jobs qu fs)"
    using wf wf' none pj by (intro jobs_add) (auto simp: fs' fs_lookup_snoc)
  with wf' show ?thesis by (auto intro: ajstep.create)
qed

lemma take_step_jobs:
  assumes wf: "fs_wf fs" and t: "take_step pid qu (c, fs) (c', fs')"
  shows "jobs_step qu fs fs'"
  using take_step_fs [OF t]
proof
  assume "\<exists>x names. c = TListed names \<and> x \<in> set names \<and>
       os_rename fs (basedir qu @ [''new'', x]) (basedir qu @ [''cur'', Itoa pid, x]) = Inr fs' \<and>
       c' = TReturned (Inr (Some \<lparr>Basename = x, dir = basedir qu @ [''cur'', Itoa pid, x], q = qu\<rparr>))"
  then obtain x where "os_rename fs (jpath qu x Submittable) (jpath qu x (Owned (Itoa pid))) = Inr fs'"
    by auto
  from rename_step [OF wf this jtrans.take] show ?thesis .
qed (use wf in simp)

lemma rescue_step:
  assumes wf: "fs_wf fs" and r: "os_rename fs (getWorkerDir qu pid @ [x]) (getNewDir qu @ [x]) = Inr fs'"
  shows "jobs_step qu fs fs'"
proof -
  from r have "os_rename fs (jpath qu x (Owned (Itoa pid))) (jpath qu x Submittable) = Inr fs'"
    by (simp add: getWorkerDir_def getNewDir_def)
  from rename_step [OF wf this jtrans.submit] show ?thesis .
qed

lemma rmdir_slot_step:
  assumes wf: "fs_wf fs" and r: "remove fs (getWorkerDir qu pid) = Inr fs'"
  shows "jobs_step qu fs fs'"
proof -
  have wf': "fs_wf fs'" using wf r by (rule fs_wf_remove)
  have "fs_lookup fs' (jpath qu y u) = fs_lookup fs (jpath qu y u)" for y u
    using remove_frame [OF r] jpath_not_slot [of qu y u] by (simp add: getWorkerDir_def)
  then show ?thesis using jobs_unchanged [OF wf wf'] wf' by simp
qed

lemma create_temp_step:
  assumes wf: "fs_wf fs" and c: "CreateTemp fs d nm rnds = Inr (fn, fs')"
  shows "jobs_step qu fs fs'"
proof -
  from CreateTemp_Inr [OF c] have ce: "create_excl fs fn = Inr fs'" by blast
  from create_excl_Inr [OF ce] have fs': "fs' = fs @ [(fn, File [])]" and none: "fs_lookup fs fn = None"
    by auto
  have wf': "fs_wf fs'" using wf ce by (rule fs_wf_create_excl)
  have "jobs qu fs' = jobs qu fs"
    using wf wf' none by (intro jobs_same_dirs [where p = fn]) (auto simp: fs' fs_lookup_snoc)
  with wf' show ?thesis by simp
qed

lemma write_step:
  assumes wf: "fs_wf fs" and f: "fs_lookup fs fn = Some (File c)" and w: "write_file fs fn data = Inr fs'"
  shows "jobs_step qu fs fs'"
proof -
  have wf': "fs_wf fs'" using wf w by (rule fs_wf_write_file)
  from f w have fs': "fs' = map (\<lambda>x. if fst x = fn then (fn, File (c @ data)) else x) fs"
    by (simp add: write_file_def)
  have "jobs qu fs' = jobs qu fs"
    using wf wf' f by (intro jobs_same_dirs [where p = fn]) (auto simp: fs' fs_lookup_def)
  with wf' show ?thesis by simp
qed

lemma set_rename_step:
  assumes wf: "fs_wf fs" and t: "butlast fn = basedir qu @ [''tmp'']" and f: "fs_lookup fs fn = Some (File c)"
    and r: "os_rename fs fn (jpath qu x st @ [nm]) = Inr fs'"
  shows "jobs_step qu fs fs'"
proof -
  have wf': "fs_wf fs'" using wf r by (rule fs_wf_os_rename)
  from t obtain j where fnj: "fn = jpath qu j Staged"
    by (cases fn rule: rev_cases) auto
  have ne: "fn \<noteq> jpath qu x st @ [nm]"
    by (cases st) (simp_all add: fnj)
  from os_rename_moved [OF r ne] have m: "fs' = move fs fn (jpath qu x st @ [nm])" by blast
  have eq: "fs_lookup fs' (jpath qu y u) = (if (y, u) = (j, Staged) then None else fs_lookup fs (jpath qu y u))" for y u
    using prop_not_prefix_jpath [of qu x st nm y u] jpath_prefix [of qu j Staged y u]
    by (simp add: m fnj fs_lookup_move)
  have "jobs qu fs' = jobs qu fs"
  proof (rule jobs_same_dirs [OF wf wf', where p = fn])
    show "\<forall>y u. jpath qu y u \<noteq> fn \<longrightarrow> fs_lookup fs' (jpath qu y u) = fs_lookup fs (jpath qu y u)"
      using eq by (simp add: fnj)
    show "fs_lookup fs fn \<noteq> Some Dir" using f by simp
    show "fs_lookup fs' fn \<noteq> Some Dir" using eq [of j Staged] by (simp add: fnj)
  qed
  with wf' show ?thesis by simp
qed

section \<open>The system refines the abstract queue\<close>

text \<open>One system call of any process is a step of the abstract queue or invisible to it.\<close>

lemma qstep_jobs:
  assumes "qstep qu ps fs fs'" and "fs_wf fs"
  shows "jobs_step qu fs fs'"
  using assms(1)
proof cases
  case (open_dir d pid r)
  from ensuredir_step [OF assms(2) this] show ?thesis .
next
  case (create pattern rnds r)
  from CreateJob_step [OF assms(2) this] show ?thesis .
next
  case (submit j r)
  then obtain st where d: "dir j = jpath qu (Basename j) st" by (auto simp: handle_ok_iff)
  from submit have "job_rename j (jpath qu (Basename j) Submittable) fs = (r, fs')" by (simp add: Submit_def handle_ok_iff)
  from job_rename_step [OF assms(2) this d jtrans.submit] show ?thesis .
next
  case (take pid c c')
  from take_step_jobs [OF assms(2) this] show ?thesis .
next
  case (finish j r)
  then obtain st where d: "dir j = jpath qu (Basename j) st" by (auto simp: handle_ok_iff)
  from finish have "job_rename j (jpath qu (Basename j) Completed) fs = (r, fs')" by (simp add: Finish_def handle_ok_iff)
  from job_rename_step [OF assms(2) this d jtrans.finish] show ?thesis .
next
  case (fail j r)
  then obtain st where d: "dir j = jpath qu (Basename j) st" by (auto simp: handle_ok_iff)
  from fail have "job_rename j (jpath qu (Basename j) Failed) fs = (r, fs')" by (simp add: Fail_def handle_ok_iff)
  from job_rename_step [OF assms(2) this d jtrans.fail] show ?thesis .
next
  case (rescue pid x)
  from rescue_step [OF assms(2) rescue(2)] show ?thesis .
next
  case (rmdir_slot pid)
  from rmdir_slot_step [OF assms(2) rmdir_slot(2)] show ?thesis .
next
  case (set_create nm rnds fn)
  from create_temp_step [OF assms(2) this] show ?thesis .
next
  case (set_write fn c data)
  from write_step [OF assms(2) set_write(2,3)] show ?thesis .
next
  case (set_rename j fn c nm)
  then obtain st where "dir j = jpath qu (Basename j) st" by (auto simp: handle_ok_iff)
  with set_rename_step [OF assms(2) set_rename(2,3)] set_rename(4) show ?thesis by simp
qed

lemma count_jobs_le_1: "fs_wf fs \<Longrightarrow> count (jobs qu fs) a \<le> 1"
  by (cases a) (simp add: count_jobs)

lemma ajstep_names: "ajstep J J' \<Longrightarrow> image_mset fst J \<subseteq># image_mset fst J'"
proof (induction rule: ajstep.induct)
  case (move x s J t)
  then have "image_mset fst (J - {#(x, s)#}) = image_mset fst J - {#x#}"
    by (simp add: image_mset_Diff)
  moreover from move.hyps have "x \<in># image_mset fst J" by force
  ultimately show ?case by simp
qed simp

lemma jtrans_Owned: "jtrans s (Owned p) \<Longrightarrow> s = Submittable"
  by (auto elim: jtrans.cases)

text \<open>
  C3: Refinement. Every run of the system, any interleaving of the system calls of
  any number of processes from a well-formed tree, keeps the tree well formed,
  and its image under \<open>jobs\<close> is a run of the abstract queue: jobs are created
  staged in \<open>tmp\<close> and only ever move between states along \<open>jtrans\<close>.
\<close>

theorem qsteps_refine:
  assumes "(qstep qu ps)\<^sup>*\<^sup>* fs0 fs" and "fs_wf fs0"
  shows "fs_wf fs \<and> ajstep\<^sup>*\<^sup>* (jobs qu fs0) (jobs qu fs)"
  using assms(1)
proof (induction rule: rtranclp_induct)
  case (step fs1 fs2)
  have "jobs_step qu fs1 fs2" using step.hyps(2) step.IH by (intro qstep_jobs) simp_all
  with step.IH show ?case by (auto intro: rtranclp.rtrancl_into_rtrancl)
qed (simp add: assms(2))

text \<open>
  C4: No job is ever lost. Along every run of the system, every job name present
  at the start (with its multiplicity) is still present at the end, in some
  state: no interleaving of \<open>Take\<close>, \<open>Finish\<close>, \<open>Set\<close>,
  \<open>RescueDeadJobs\<close> and the others drops a job directory.
\<close>

theorem jobs_never_lost:
  assumes "(qstep qu ps)\<^sup>*\<^sup>* fs0 fs" and "fs_wf fs0"
  shows "image_mset fst (jobs qu fs0) \<subseteq># image_mset fst (jobs qu fs)"
proof -
  have "fs_wf fs \<and> image_mset fst (jobs qu fs0) \<subseteq># image_mset fst (jobs qu fs)"
    using assms(1)
  proof (induction rule: rtranclp_induct)
    case (step fs1 fs2)
    have "jobs_step qu fs1 fs2" using step.hyps(2) step.IH by (intro qstep_jobs) simp_all
    with step.IH show ?case by (auto dest: ajstep_names intro: subset_mset.order_trans)
  qed (simp add: assms(2))
  then show ?thesis ..
qed

text \<open>
  C5: A job enters a worker's slot only out of \<open>new\<close>: when a step puts job
  \<open>x\<close> into \<open>cur/p\<close>, the job was submittable in \<open>new\<close> before the step and
  is no longer there after it.
\<close>

theorem owned_only_from_new:
  assumes st: "qstep qu ps fs fs'" and wf: "fs_wf fs"
    and before: "(x, Owned p) \<notin># jobs qu fs" and after: "(x, Owned p) \<in># jobs qu fs'"
  shows "(x, Submittable) \<in># jobs qu fs \<and> (x, Submittable) \<notin># jobs qu fs'"
proof -
  from qstep_jobs [OF st wf] before after
  have wf': "fs_wf fs'" and a: "ajstep (jobs qu fs) (jobs qu fs')" by auto
  from a show ?thesis
  proof cases
    case (create y)
    with before after show ?thesis by auto
  next
    case (move y s t)
    have yt: "(y, t) = (x, Owned p)"
    proof (rule ccontr)
      assume "(y, t) \<noteq> (x, Owned p)"
      with after move(1) have "(x, Owned p) \<in># jobs qu fs - {#(y, s)#}" by auto
      with before show False by (auto dest: in_diffD)
    qed
    with move(3) have s: "s = Submittable" and y: "y = x" by (auto dest: jtrans_Owned)
    have "count (jobs qu fs) (x, Submittable) \<le> 1" using wf by (rule count_jobs_le_1)
    then have "(x, Submittable) \<notin># jobs qu fs - {#(x, Submittable)#}"
      by (simp flip: count_greater_zero_iff)
    with move(1,2) s y yt show ?thesis by auto
  qed
qed

text \<open>
  C7: Job handles are well formed: the handle \<open>CreateJob\<close> returns and the one
  \<open>Take\<close> returns belong to the queue and point at a place of their job, and
  \<open>Submit\<close>, \<open>Finish\<close> and \<open>Fail\<close> keep a well-formed handle well formed.
\<close>

theorem handles_wellformed:
  "(CreateJob qu pattern rnds fs = (Inr j, fs') \<longrightarrow> handle_ok qu j) \<and>
   (Take n pid qu rnd fs = Some (Inr (Some j), fs') \<longrightarrow> handle_ok qu j) \<and>
   (handle_ok qu j \<longrightarrow> Submit j fs = (Inr j', fs') \<longrightarrow> handle_ok qu j') \<and>
   (handle_ok qu j \<longrightarrow> Finish j fs = (Inr j', fs') \<longrightarrow> handle_ok qu j') \<and>
   (handle_ok qu j \<longrightarrow> Fail j fs = (Inr j', fs') \<longrightarrow> handle_ok qu j')"
proof (intro conjI impI)
  assume c: "CreateJob qu pattern rnds fs = (Inr j, fs')"
  then obtain p where m: "MkdirTemp fs (basedir qu @ [''tmp'']) pattern rnds = Inr (p, fs')"
    and j: "j = \<lparr>Basename = last p, dir = p, q = qu\<rparr>"
    by (auto simp: CreateJob_def split: sum.splits)
  from MkdirTemp_Inr [OF m] obtain x where "p = jpath qu x Staged" by auto
  with j show "handle_ok qu j" by (auto simp: handle_ok_iff intro: exI [where x = Staged])
next
  assume "Take n pid qu rnd fs = Some (Inr (Some j), fs')"
  from Take_result [OF this] show "handle_ok qu j"
    by (auto simp: handle_ok_iff mycur_def intro: exI [where x = "Owned (Itoa pid)"])
next
  assume "handle_ok qu j" "Submit j fs = (Inr j', fs')"
  then show "handle_ok qu j'"
    using handle_ok_move [of qu j Submittable] by (auto simp: Submit_def handle_ok_iff dest: job_rename_Inr)
next
  assume "handle_ok qu j" "Finish j fs = (Inr j', fs')"
  then show "handle_ok qu j'"
    using handle_ok_move [of qu j Completed] by (auto simp: Finish_def handle_ok_iff dest: job_rename_Inr)
next
  assume "handle_ok qu j" "Fail j fs = (Inr j', fs')"
  then show "handle_ok qu j'"
    using handle_ok_move [of qu j Failed] by (auto simp: Fail_def handle_ok_iff dest: job_rename_Inr)
qed

text \<open>A rename of a job to a free place whose parent exists succeeds and moves
  exactly that job in the abstraction.\<close>

lemma rename_moves_job:
  assumes wf: "fs_wf fs" and src: "fs_lookup fs (jpath qu x s) = Some Dir"
    and par: "fs_lookup fs (butlast (jpath qu x t)) = Some Dir" and free: "fs_lookup fs (jpath qu x t) = None"
  shows "os_rename fs (jpath qu x s) (jpath qu x t) = Inr (move fs (jpath qu x s) (jpath qu x t)) \<and>
    jobs qu (move fs (jpath qu x s) (jpath qu x t)) = add_mset (x, t) (jobs qu fs - {#(x, s)#})"
proof -
  let ?src = "jpath qu x s" and ?dst = "jpath qu x t" and ?fs' = "move fs (jpath qu x s) (jpath qu x t)"
  have np: "\<not> prefix ?src ?dst" using src free jpath_prefix [of qu x s x t] by auto
  have r: "os_rename fs ?src ?dst = Inr ?fs'"
    using wf src par free np by (intro os_rename_fresh) (auto intro: jpath_ne)
  have "(x, t) \<notin># jobs qu fs" using wf free by (simp add: count_jobs flip: count_greater_zero_iff)
  moreover have "(x, t) \<in># jobs qu ?fs'"
  proof -
    have "fs_wf ?fs'" using wf r by (rule fs_wf_os_rename)
    moreover have "fs_lookup ?fs' ?dst = Some Dir" using src by (simp add: fs_lookup_move)
    ultimately show ?thesis by (simp add: count_jobs flip: count_greater_zero_iff)
  qed
  ultimately have "jobs qu ?fs' \<noteq> jobs qu fs" by auto
  with rename_jobs [OF wf r] r show ?thesis by blast
qed

text \<open>
  C6: Progress: a submittable job can always be taken. When job \<open>x\<close> is in
  \<open>new\<close> and the owner slot of worker \<open>pid\<close> exists without an entry \<open>x\<close>,
  the system has a step (the rename of \<open>Take\<close> after listing \<open>new\<close>) that
  moves the job into that slot and changes nothing else the abstraction sees.
\<close>

theorem take_progress:
  assumes wf: "fs_wf fs" and sub: "(x, Submittable) \<in># jobs qu fs"
    and slot: "fs_lookup fs (getWorkerDir qu pid) = Some Dir"
    and free: "fs_lookup fs (getWorkerDir qu pid @ [x]) = None"
  shows "\<exists>fs'. qstep qu ps fs fs' \<and> jobs qu fs' = add_mset (x, Owned (Itoa pid)) (jobs qu fs - {#(x, Submittable)#})"
proof -
  let ?src = "jpath qu x Submittable" and ?dst = "jpath qu x (Owned (Itoa pid))"
  have src: "fs_lookup fs ?src = Some Dir"
    using sub wf by (simp add: count_jobs flip: count_greater_zero_iff split: if_splits)
  have par: "fs_lookup fs (butlast ?dst) = Some Dir" using slot by (simp add: getWorkerDir_def butlast_append)
  have dfree: "fs_lookup fs ?dst = None" using free by (simp add: getWorkerDir_def)
  from rename_moves_job [OF wf src par dfree]
  have r: "os_rename fs ?src ?dst = Inr (move fs ?src ?dst)"
    and j: "jobs qu (move fs ?src ?dst) = add_mset (x, Owned (Itoa pid)) (jobs qu fs - {#(x, Submittable)#})"
    by auto
  have listed: "x \<in> set (children fs (basedir qu @ [''new'']))"
    using src by (simp add: children_iff)
  have "take_step pid qu (TListed (children fs (basedir qu @ [''new''])), fs)
     (TReturned (Inr (Some \<lparr>Basename = x, dir = basedir qu @ mycur pid @ [x], q = qu\<rparr>)), move fs ?src ?dst)"
    using listed r by (intro take_step.taken) (simp_all add: mycur_def)
  then have "qstep qu ps fs (move fs ?src ?dst)" by (rule qstep.take)
  with j show ?thesis by blast
qed

text \<open>
  C17: \<open>Submit\<close> does not check the state of the job. For a well-formed handle
  whose job is in any state but \<open>new\<close> (in \<open>tmp\<close>, in the slot of a worker
  that is processing it, in \<open>done\<close> or in \<open>failed\<close>), \<open>Submit\<close> succeeds
  whenever the name is free in \<open>new\<close>: it moves the job to \<open>new\<close>, where
  any worker can take it again. The package documentation describes
  \<open>Submit\<close> only for jobs created in \<open>tmp\<close>.
\<close>

theorem Submit_any_state:
  assumes wf: "fs_wf fs" and h: "q j = qu" and st: "dir j = jpath qu (Basename j) s" and ns: "s \<noteq> Submittable"
    and here: "fs_lookup fs (dir j) = Some Dir" and newd: "fs_lookup fs (getNewDir qu) = Some Dir"
    and free: "fs_lookup fs (getNewDir qu @ [Basename j]) = None"
  shows "\<exists>fs'. Submit j fs = (Inr (j\<lparr>dir := getNewDir qu @ [Basename j]\<rparr>), fs') \<and> qstep qu ps fs fs' \<and>
    jobs qu fs' = add_mset (Basename j, Submittable) (jobs qu fs - {#(Basename j, s)#})"
proof -
  let ?x = "Basename j"
  have src: "fs_lookup fs (jpath qu ?x s) = Some Dir" using here st by simp
  have par: "fs_lookup fs (butlast (jpath qu ?x Submittable)) = Some Dir" using newd by (simp add: getNewDir_def butlast_append)
  have fr: "fs_lookup fs (jpath qu ?x Submittable) = None" using free by (simp add: getNewDir_def)
  from rename_moves_job [OF wf src par fr]
  have r: "os_rename fs (dir j) (getNewDir qu @ [?x]) = Inr (move fs (jpath qu ?x s) (jpath qu ?x Submittable))"
    and jb: "jobs qu (move fs (jpath qu ?x s) (jpath qu ?x Submittable)) =
       add_mset (?x, Submittable) (jobs qu fs - {#(?x, s)#})"
    using st by (auto simp: getNewDir_def)
  have sub: "Submit j fs = (Inr (j\<lparr>dir := getNewDir qu @ [?x]\<rparr>), move fs (jpath qu ?x s) (jpath qu ?x Submittable))"
    using r h by (simp add: Submit_def job_rename_def getNewDir_def)
  have "handle_ok qu j" using h st by (auto simp: handle_ok_iff)
  then have "qstep qu ps fs (move fs (jpath qu ?x s) (jpath qu ?x Submittable))" using sub by (rule qstep.submit)
  with sub jb show ?thesis by blast
qed

end
