(* ===== verification/Spec2Isabelle.thy ===== *)
theory Spec2Isabelle
  imports Tests Jobs
begin

text \<open>
  \<^bold>\<open>A verification development of go-pqueue\<close>

  go-pqueue (\<open>src/pqueue/pqueue.go\<close>) is a job queue kept in a directory tree:
  a job is a directory, its state is the directory it sits in (\<open>tmp\<close>, \<open>new\<close>,
  \<open>cur/<pid>\<close>, \<open>done\<close>, \<open>failed\<close>), and every state change is one atomic
  \<open>os.Rename\<close>. Workers compete for jobs by renaming them out of \<open>new\<close> into
  their own owner slot \<open>cur/<pid>\<close>; \<open>RescueDeadJobs\<close> returns the jobs of dead
  workers to \<open>new\<close>. The tests (\<open>src/unnamed/part_000\<close>) exercise these paths.

  \<^bold>\<open>Theories.\<close>
  \<^item> \<open>Prelude\<close>: the model's types (names, paths as component lists, byte
    strings) and lemmas on association lists and path prefixes.
  \<^item> \<open>FileSystem\<close>: the substrate the code calls, modelled from the spec and
    from Linux and Go semantics (none of it is in the repository): the tree as an
    association list from paths to nodes in creation order (\<open>fs\<close>), path
    resolution (\<open>walk\<close>, \<open>lstat\<close>), \<open>mkdir\<close>, exclusive create, \<open>write\<close>,
    \<open>ReadFile\<close>, \<open>os.Remove\<close>, \<open>rename(2)\<close> (\<open>sys_rename\<close>) and Go's
    \<open>os.Rename\<close> (\<open>os_rename\<close>, which refuses an existing directory as target),
    directory listing, \<open>os.MkdirTemp\<close>/\<open>os.CreateTemp\<close> with the random name
    parts as a list, the liveness probe \<open>kill(pid, 0)\<close> as an oracle and
    \<open>rand.Intn\<close> as a stream of draws. Every call is atomic and fails without
    effect. Lemmas: every call keeps the tree well-formed (\<open>fs_wf\<close>: one node per
    path, every parent a directory); the association-list rename refines the
    abstract move on partial maps (\<open>move_refines_amove\<close>); when a rename succeeds,
    fails with \<open>ENOENT\<close>, or frees its source.
  \<^item> \<open>StrConv\<close>: \<open>strconv.Itoa\<close> and \<open>strconv.Atoi\<close> (64-bit \<open>int\<close>, Go's byte
    arithmetic in the digit test) and their round trip.
  \<^item> \<open>Queue\<close>: the \<open>Queue\<close> and \<open>Job\<close> structs as records, \<open>OpenQueue\<close>
    with its loop over the subdirectories and \<open>ensuredir\<close>, \<open>CreateJob\<close>,
    \<open>Submit\<close>, \<open>Take\<close>, \<open>Finish\<close>, \<open>Fail\<close>, \<open>readdirnames\<close> and the
    \<open>get*Dir\<close> helpers. Each is a function of the filesystem state returning
    Go's results and the new state; the process id behind the package variable
    \<open>mycur\<close> is a parameter. Lemmas: \<open>Take\<close> gives a job to one worker only,
    terminates with one unit of fuel when the worker's slot exists and livelocks
    when it does not; \<open>OpenQueue\<close> is idempotent and creates the layout;
    \<open>Finish\<close> moves the whole job, fails the second time and when the job
    vanished; the owner slot name parses back to the process id.
  \<^item> \<open>Rescue\<close>: \<open>RescueDeadJobs\<close>, \<open>rescueDeadJobsFrom\<close> and
    \<open>processExists\<close>, their loops as recursion over the listed names and every
    log line as an event. Lemmas: the sweep only touches the slots of dead
    processes, and empties and removes each of them.
  \<^item> \<open>Props\<close>: \<open>Get\<close> and \<open>Set\<close>, and \<open>Set_trace\<close>, the states after each of
    \<open>Set\<close>'s three system calls. Lemmas: \<open>Get\<close> after \<open>Set\<close> reads the value;
    a failed \<open>Set\<close> keeps the old value; no intermediate state shows a partial
    value.
  \<^item> \<open>Logging\<close>: the text of every log line (\<open>log_line\<close>) as the \<open>log\<close>
    package writes it, with the error values printed as the Go library prints
    them. Lemmas (in this theory): the failed rename of \<open>Set\<close> logs
    \<open>%!s(MISSING)\<close> instead of its error, the text of a sweep, and a slot name
    with a newline that forges a log line.
  \<^item> \<open>Tests\<close>: each test function of \<open>part_000\<close> as a predicate that holds
    when the test runs to its end, and the proof that each passes.
  \<^item> \<open>Concurrent\<close>: \<open>Take\<close> as a process whose steps are its system calls
    (\<open>take_step\<close>, program counter \<open>take_pc\<close>), and any number of workers
    interleaving them (\<open>take_sys\<close>). Lemmas: the fuelled \<open>Take\<close> is a run of
    \<open>take_step\<close>; in every interleaving no job has two owners.
  \<^item> \<open>Jobs\<close>: the whole queue as a concurrent system. \<open>qstep\<close> is one system
    call of any process: an \<open>ensuredir\<close> of \<open>OpenQueue\<close>, \<open>CreateJob\<close>,
    \<open>Submit\<close>, \<open>Finish\<close> or \<open>Fail\<close> on a job handle, a \<open>take_step\<close>, a rename
    or rmdir of the rescue sweep, or one of the calls of \<open>Set\<close>. The
    abstraction \<open>jobs\<close> reads the tree as the multiset of (name, state) pairs;
    \<open>ajstep\<close> with \<open>jtrans\<close> is the abstract queue of the package
    documentation. Lemmas: every run refines a run of the abstract queue, no job
    is ever lost, a job reaches a worker's slot only out of \<open>new\<close>, a job in
    \<open>new\<close> can always be taken, and the job handles the operations return are
    well formed (the premise of \<open>qstep\<close>'s handle rules).
  \<^item> \<open>Spec2Isabelle\<close> (this theory): concrete queues, the scenarios (two
    workers racing for one job, the lifecycle of that job as a run of the
    system, a finished job submitted again, the log of a sweep), and the
    witnesses of the theorems with hypotheses.

  \<^bold>\<open>Fuel.\<close> \<open>Take\<close>'s retry loop is the only loop of the code that need not end;
  it is modelled with fuel, one unit per iteration. \<open>Take_terminates\<close> shows
  that one unit is enough whenever the worker's owner slot exists: the rename
  out of \<open>new\<close> can then never report \<open>ENOENT\<close> in a run of this process
  alone. \<open>Take_livelock\<close> shows that no fuel is enough when the slot is missing
  and work is waiting. The concurrent models need no fuel: \<open>take_step\<close> and
  \<open>qstep\<close> are step relations and their runs are reflexive-transitive
  closures. The temp-name allocators run over the given list of random parts,
  at most 10000 of them, as the library does.

  \<^bold>\<open>Not modelled.\<close> Permission and device errors (\<open>EACCES\<close>, \<open>EIO\<close>,
  \<open>ENOSPC\<close>) and a failing \<open>Close\<close>; symbolic links and hard links;
  the date prefix the \<open>log\<close> package writes before each line; names that
  contain \<open>/\<close> (every path is built from single components); the deferred
  \<open>RemoveAll\<close> clean-up of the tests. In the concurrent system each system
  call is atomic, as the kernel makes it; reads (\<open>readdirnames\<close>, \<open>Get\<close>)
  do not change the tree and appear only inside \<open>take_step\<close>.
\<close>

section \<open>Concrete queues\<close>

text \<open>A queue at \<open>/q\<close> opened by process 7, and the same queue with one job \<open>foo1\<close> submitted.\<close>

definition ex_q :: queue where
  "ex_q = \<lparr>basedir = [''q''], mycurdir = []\<rparr>"

definition ex_opened :: fs where
  "ex_opened =
     [([], Dir), ([''q''], Dir), ([''q'', ''tmp''], Dir), ([''q'', ''new''], Dir),
      ([''q'', ''cur''], Dir), ([''q'', ''done''], Dir), ([''q'', ''failed''], Dir),
      ([''q'', ''cur'', ''7''], Dir)]"

definition ex_submitted :: fs where
  "ex_submitted = ex_opened @ [([''q'', ''new'', ''foo1''], Dir)]"

text \<open>The same queue after another process removed the (empty) owner slot of process 7.\<close>

definition ex_noslot :: fs where
  "ex_noslot =
     [([], Dir), ([''q''], Dir), ([''q'', ''tmp''], Dir), ([''q'', ''new''], Dir),
      ([''q'', ''cur''], Dir), ([''q'', ''done''], Dir), ([''q'', ''failed''], Dir),
      ([''q'', ''new'', ''foo1''], Dir)]"

text \<open>Two workers, 7 and 8, and two submitted jobs; then the states after 7 and 8 each took one.\<close>

definition ex_two :: fs where
  "ex_two = ex_opened @ [([''q'', ''cur'', ''8''], Dir), ([''q'', ''new'', ''foo1''], Dir),
                         ([''q'', ''new'', ''bar2''], Dir)]"

definition ex_two_taken7 :: fs where
  "ex_two_taken7 = ex_opened @ [([''q'', ''cur'', ''8''], Dir), ([''q'', ''new'', ''bar2''], Dir),
                                ([''q'', ''cur'', ''7'', ''foo1''], Dir)]"

definition ex_two_taken8 :: fs where
  "ex_two_taken8 = ex_opened @ [([''q'', ''cur'', ''8''], Dir), ([''q'', ''cur'', ''7'', ''foo1''], Dir),
                                ([''q'', ''cur'', ''8'', ''bar2''], Dir)]"

text \<open>
  The situation of \<open>TestRescueDeadJobs\<close>: process 7 is alive and holds \<open>bar\<close>;
  the slot \<open>cur/424242\<close> of a process that is gone holds \<open>foo\<close>. The oracle
  \<open>ex_ps\<close> reports every process but 7 gone.
\<close>

definition ex_ps :: procs where
  "ex_ps p = (if p = 7 then None else Some ESRCH)"

definition ex_dead :: fs where
  "ex_dead = ex_opened @ [([''q'', ''cur'', ''424242''], Dir), ([''q'', ''cur'', ''424242'', ''foo''], Dir),
                          ([''q'', ''cur'', ''7'', ''bar''], Dir)]"

definition ex_rescued :: fs where
  "ex_rescued = ex_opened @ [([''q'', ''cur'', ''7'', ''bar''], Dir), ([''q'', ''new'', ''foo''], Dir)]"

text \<open>Two dead workers, 5 and 6, holding the jobs \<open>foo\<close> and \<open>bar\<close>, beside the live worker 7.\<close>

definition ex_dead2 :: fs where
  "ex_dead2 = ex_opened @ [([''q'', ''cur'', ''5''], Dir), ([''q'', ''cur'', ''5'', ''foo''], Dir),
                           ([''q'', ''cur'', ''6''], Dir), ([''q'', ''cur'', ''6'', ''bar''], Dir)]"

definition ex_rescued2 :: fs where
  "ex_rescued2 = ex_opened @ [([''q'', ''new'', ''foo''], Dir), ([''q'', ''new'', ''bar''], Dir)]"

text \<open>A dead worker's slot written with a leading zero, \<open>cur/042\<close>, holding the job \<open>foo\<close>.\<close>

definition ex_zero :: fs where
  "ex_zero = ex_opened @ [([''q'', ''cur'', ''042''], Dir), ([''q'', ''cur'', ''042'', ''foo''], Dir)]"

text \<open>A root \<open>/q\<close> in which \<open>new\<close> already exists as an empty regular file; and the
  state \<open>OpenQueue\<close> leaves there.\<close>

definition ex_newfile :: fs where
  "ex_newfile = [([], Dir), ([''q''], Dir), ([''q'', ''new''], File [])]"

definition ex_newfile_opened :: fs where
  "ex_newfile_opened = ex_newfile @
     [([''q'', ''tmp''], Dir), ([''q'', ''cur''], Dir), ([''q'', ''done''], Dir), ([''q'', ''failed''], Dir),
      ([''q'', ''cur'', ''7''], Dir)]"

text \<open>A root with only \<open>/\<close>: the queue directory \<open>/q\<close> is missing.\<close>

definition ex_empty :: fs where
  "ex_empty = [([], Dir)]"

text \<open>The job \<open>foo1\<close> as process 7 holds it after \<open>Take\<close>, and the same state with a
  directory in the place of its property \<open>p\<close>.\<close>

definition ex_job :: job where
  "ex_job = \<lparr>Basename = ''foo1'', dir = [''q'', ''cur'', ''7'', ''foo1''], q = ex_q\<rparr>"

definition ex_propdir :: fs where
  "ex_propdir = ex_two_taken7 @ [([''q'', ''cur'', ''7'', ''foo1'', ''p''], Dir)]"

text \<open>
  A race: workers 7 and 8 both list \<open>new\<close> holding \<open>foo1\<close>; 7 renames it into its
  slot; 8's rename then reports \<open>ENOENT\<close>, 8 lists again and finds nothing.
  \<open>race_pcs k\<close> is the state of the workers after the k-th step.
\<close>

definition ex_race :: fs where
  "ex_race = ex_opened @ [([''q'', ''cur'', ''8''], Dir), ([''q'', ''new'', ''foo1''], Dir)]"

definition ex_race_taken :: fs where
  "ex_race_taken = ex_opened @ [([''q'', ''cur'', ''8''], Dir), ([''q'', ''cur'', ''7'', ''foo1''], Dir)]"

definition ex_race_done :: fs where
  "ex_race_done = ex_opened @ [([''q'', ''cur'', ''8''], Dir), ([''q'', ''done'', ''foo1''], Dir)]"

definition ex_job7 :: job where
  "ex_job7 = \<lparr>Basename = ''foo1'', dir = [''q'', ''cur'', ''7'', ''foo1''], q = ex_q\<rparr>"

text \<open>
  A sweep over a \<open>cur\<close> holding an entry that is not a process id (\<open>abc\<close>), the
  slot of process 1, which \<open>kill\<close> may not signal (\<open>EPERM\<close>), the live worker
  7 and the dead worker 424242 with the job \<open>foo\<close>; and a \<open>cur\<close> holding an entry
  whose name contains a newline.
\<close>

definition ex_ps2 :: procs where
  "ex_ps2 p = (if p = 7 then None else if p = 1 then Some EPERM else Some ESRCH)"

definition ex_sweep :: fs where
  "ex_sweep = ex_opened @ [([''q'', ''cur'', ''abc''], Dir), ([''q'', ''cur'', ''1''], Dir),
     ([''q'', ''cur'', ''424242''], Dir), ([''q'', ''cur'', ''424242'', ''foo''], Dir)]"

definition ex_forged_name :: name where
  "ex_forged_name = ''x'' @ [CHR 0x0A] @ ''Process 8 has gone away''"

definition ex_forged :: fs where
  "ex_forged = ex_opened @ [([''q'', ''cur'', ex_forged_name], Dir)]"

definition race_pcs :: "nat \<Rightarrow> workers" where
  "race_pcs k = (case k of
      0 \<Rightarrow> (\<lambda>_. TStart)
    | Suc 0 \<Rightarrow> (\<lambda>_. TStart)(7 := TListed [''foo1''])
    | Suc (Suc 0) \<Rightarrow> (\<lambda>_. TStart)(7 := TListed [''foo1''], 8 := TListed [''foo1''])
    | Suc (Suc (Suc 0)) \<Rightarrow> (\<lambda>_. TStart)(7 := TReturned (Inr (Some ex_job7)), 8 := TListed [''foo1''])
    | Suc (Suc (Suc (Suc 0))) \<Rightarrow> (\<lambda>_. TStart)(7 := TReturned (Inr (Some ex_job7)), 8 := TStart)
    | Suc (Suc (Suc (Suc (Suc 0)))) \<Rightarrow> (\<lambda>_. TStart)(7 := TReturned (Inr (Some ex_job7)), 8 := TListed [])
    | _ \<Rightarrow> (\<lambda>_. TStart)(7 := TReturned (Inr (Some ex_job7)), 8 := TReturned (Inr None)))"

lemmas ex_defs = ex_job_def ex_propdir_def ex_newfile_def ex_newfile_opened_def ex_empty_def ex_q_def ex_opened_def ex_submitted_def ex_noslot_def ex_two_def
  ex_two_taken7_def ex_two_taken8_def ex_ps_def ex_dead_def ex_rescued_def ex_zero_def ex_dead2_def ex_rescued2_def

lemmas eval_simps = fs_wf_def fs_lookup_def mycur_def Itoa_def nat_digits.simps digit_char_def
  children_def is_child_def readdirnames_def readdir_def lstat_def Intn_def Let_def
  os_rename_def sys_rename_def move_def rebase_def IsNotExist_def
  RescueDeadJobs_def rescueDeadJobsFrom_def processExists_def remove_def getCurDir_def
  getWorkerDir_def getNewDir_def Atoi_def split_sign_def digits_value_def digit_val_def
  OpenQueue_def queue_subdirs_def ensuredir_def mkdir_def IsExist_def
  Set_def Set_trace_def Get_def CreateTemp_def prefixAndSuffix_def create_excl_def write_file_def
  read_file_def

lemmas log_simps = log_text_def set_rename_log_def sprintln_def log_output_def
  path_str_def atoi_error_def go_quote_def

lemmas race_defs = ex_race_def ex_race_taken_def ex_race_done_def ex_job7_def

lemmas jobs_simps = jobs_def job_list_def job_dirs_def

lemma sys_step_at:
  "- (2 ^ 63) \<le> pid \<Longrightarrow> pid < 2 ^ 63 \<Longrightarrow> pcs pid = pc_now \<Longrightarrow> take_step pid qu (pc_now, fs) (c, fs') \<Longrightarrow>
   pcs' = pcs(pid := c) \<Longrightarrow> take_sys qu (pcs, fs) (pcs', fs')"
  using take_sys.step by blast

lemma race_take7: "take_step 7 ex_q (TListed [''foo1''], ex_race) (TReturned (Inr (Some ex_job7)), ex_race_taken)"
proof -
  have "take_step 7 ex_q (TListed [''foo1''], ex_race)
      (TReturned (Inr (Some \<lparr>Basename = ''foo1'', dir = basedir ex_q @ mycur 7 @ [''foo1''], q = ex_q\<rparr>)), ex_race_taken)"
    by (rule take_step.taken) (simp_all add: race_defs ex_defs eval_simps)
  then show ?thesis by (simp add: ex_job7_def ex_defs mycur_def Itoa_def nat_digits.simps digit_char_def)
qed

lemma race_run:
  "(take_sys ex_q)\<^sup>*\<^sup>* (race_pcs 0, ex_race) (race_pcs 2, ex_race) \<and>
   (take_sys ex_q)\<^sup>*\<^sup>* (race_pcs 2, ex_race) (race_pcs 6, ex_race_taken)"
proof -
  have l7: "take_sys ex_q (race_pcs 0, ex_race) (race_pcs 1, ex_race)"
    by (rule sys_step_at [where pid = 7 and pc_now = TStart and c = "TListed [''foo1'']"], simp_all add: race_pcs_def)
       (rule take_step.list_ok, simp add: race_defs ex_defs eval_simps)
  have l8: "take_sys ex_q (race_pcs 1, ex_race) (race_pcs 2, ex_race)"
    by (rule sys_step_at [where pid = 8 and pc_now = TStart and c = "TListed [''foo1'']"], simp_all add: race_pcs_def)
       (rule take_step.list_ok, simp add: race_defs ex_defs eval_simps)
  have t7: "take_sys ex_q (race_pcs 2, ex_race) (race_pcs 3, ex_race_taken)"
    by (rule sys_step_at [where pid = 7 and pc_now = "TListed [''foo1'']" and c = "TReturned (Inr (Some ex_job7))"])
       (simp_all add: race_pcs_def race_take7 fun_eq_iff)
  have r8: "take_sys ex_q (race_pcs 3, ex_race_taken) (race_pcs 4, ex_race_taken)"
    by (rule sys_step_at [where pid = 8 and pc_now = "TListed [''foo1'']" and c = TStart], simp_all add: race_pcs_def)
       (rule take_step.retry [of "''foo1''" _ _ _ _ ENOENT], simp_all add: race_defs ex_defs eval_simps)
  have l8': "take_sys ex_q (race_pcs 4, ex_race_taken) (race_pcs 5, ex_race_taken)"
    by (rule sys_step_at [where pid = 8 and pc_now = TStart and c = "TListed []"], simp_all add: race_pcs_def)
       (rule take_step.list_ok, simp add: race_defs ex_defs eval_simps)
  have n8: "take_sys ex_q (race_pcs 5, ex_race_taken) (race_pcs 6, ex_race_taken)"
    by (rule sys_step_at [where pid = 8 and pc_now = "TListed []" and c = "TReturned (Inr None)"], simp_all add: race_pcs_def)
       (rule take_step.none_left)
  from l7 l8 t7 r8 l8' n8 show ?thesis by (meson rtranclp.rtrancl_into_rtrancl rtranclp.rtrancl_refl)
qed

text \<open>The job \<open>foo1\<close> of the race, taken by worker 7 and finished, as a run of the whole system.\<close>

lemma race_finish: "Finish ex_job7 ex_race_taken = (Inr (ex_job7\<lparr>dir := [''q'', ''done'', ''foo1'']\<rparr>), ex_race_done)"
  by (simp add: Finish_def job_rename_def race_defs ex_defs eval_simps)

lemma race_qsteps:
  "qstep ex_q ex_ps ex_race ex_race_taken \<and> (qstep ex_q ex_ps)\<^sup>*\<^sup>* ex_race ex_race_done"
proof -
  have t: "qstep ex_q ex_ps ex_race ex_race_taken" using race_take7 by (rule qstep.take)
  have f: "qstep ex_q ex_ps ex_race_taken ex_race_done"
    by (rule qstep.finish [OF _ race_finish]) (simp add: handle_ok_def ex_job7_def ex_defs)
  from t f show ?thesis by (meson rtranclp.rtrancl_into_rtrancl rtranclp.rtrancl_refl)
qed

lemma race_jobs:
  "jobs ex_q ex_race = {#(''foo1'', Submittable)#} \<and>
   jobs ex_q ex_race_taken = {#(''foo1'', Owned ''7'')#} \<and>
   jobs ex_q ex_race_done = {#(''foo1'', Completed)#}"
  by (simp add: jobs_simps race_defs ex_defs eval_simps)

lemma fs_wf_ex_race: "fs_wf ex_race"
  by (simp add: race_defs ex_defs eval_simps)

section \<open>Witnesses\<close>

theorem take_sys_at_most_one_owner_witness:
  "fs_wf ex_race_taken \<and> single_owner ex_q ex_race_taken \<and>
   race_pcs 6 7 = TReturned (Inr (Some ex_job7)) \<and> race_pcs 6 8 = TReturned (Inr None)"
proof -
  have run: "(take_sys ex_q)\<^sup>*\<^sup>* (race_pcs 0, ex_race) (race_pcs 6, ex_race_taken)"
    using race_run by (meson rtranclp_trans)
  have h: "fs_wf ex_race" "single_owner ex_q ex_race" "\<forall>p. race_pcs 0 p = TStart"
    by (simp_all add: race_defs ex_defs eval_simps single_owner_def owners_def held_names_def race_pcs_def)
  from Concurrent.take_sys_at_most_one_owner [OF run h] show ?thesis by (simp add: race_pcs_def)
qed

theorem single_owner_iff_witness:
  "fs_wf ex_race_taken \<and> single_owner ex_q ex_race_taken \<and>
   fs_lookup ex_race_taken [''q'', ''cur'', ''8'', ''foo1''] = None"
proof -
  have h: "fs_wf ex_race_taken" "single_owner ex_q ex_race_taken"
    "fs_lookup ex_race_taken [''q'', ''cur'', ''7'', ''foo1''] \<noteq> None"
    by (simp_all add: race_defs ex_defs eval_simps single_owner_def owners_def held_names_def)
  from Concurrent.single_owner_iff [OF h(1), of ex_q] h(2)
  have U: "\<forall>x s t. fs_lookup ex_race_taken (basedir ex_q @ [''cur'', s, x]) \<noteq> None \<longrightarrow>
             fs_lookup ex_race_taken (basedir ex_q @ [''cur'', t, x]) \<noteq> None \<longrightarrow> s = t"
    by blast
  have "fs_lookup ex_race_taken (basedir ex_q @ [''cur'', ''7'', ''foo1'']) \<noteq> None"
    using h(3) by (simp add: ex_q_def)
  with U have "fs_lookup ex_race_taken (basedir ex_q @ [''cur'', ''8'', ''foo1'']) = None"
    by fastforce
  with h show ?thesis by (simp add: ex_q_def)
qed

theorem slot_name_roundtrip_witness:
  "getWorkerDir ex_q 424242 = [''q'', ''cur'', ''424242''] \<and> Atoi ''424242'' = Some 424242"
proof -
  have h: "- (2 ^ 63) \<le> (424242::int)" "(424242::int) < 2 ^ 63" by simp_all
  from Queue.slot_name_roundtrip [OF h, of ex_q] show ?thesis
    by (simp add: ex_defs mycur_def Itoa_def nat_digits.simps digit_char_def)
qed

theorem Finish_moves_witness:
  "fs_wf ex_two_taken7 \<and> fs_lookup ex_two_taken7 (dir ex_job) = Some Dir \<and>
   (\<exists>fs'. Finish ex_job ex_two_taken7 = (Inr (ex_job\<lparr>dir := [''q'', ''done'', ''foo1'']\<rparr>), fs') \<and>
      fs_lookup fs' [''q'', ''done'', ''foo1''] = Some Dir \<and> fs_lookup fs' (dir ex_job) = None)"
proof -
  have h: "fs_wf ex_two_taken7" "fs_lookup ex_two_taken7 (dir ex_job) = Some Dir" "dir ex_job \<noteq> []"
    "fs_lookup ex_two_taken7 (basedir (q ex_job) @ [''done'']) = Some Dir"
    "fs_lookup ex_two_taken7 (basedir (q ex_job) @ [''done'', Basename ex_job]) = None"
    "\<not> prefix (dir ex_job) (basedir (q ex_job) @ [''done''])"
    by (simp_all add: ex_defs eval_simps)
  from Queue.Finish_moves [OF h] obtain fs' where
    "Finish ex_job ex_two_taken7 = (Inr (ex_job\<lparr>dir := [''q'', ''done'', ''foo1'']\<rparr>), fs')"
    "fs_lookup fs' ([''q'', ''done'', ''foo1''] @ []) = fs_lookup ex_two_taken7 (dir ex_job @ [])"
    "fs_lookup fs' (dir ex_job) = None"
    by (auto simp: ex_defs)
  then show ?thesis using h by auto
qed

theorem Finish_twice_witness:
  "Finish ex_job ex_two_taken7 = (Inr (ex_job\<lparr>dir := [''q'', ''done'', ''foo1'']\<rparr>),
      move ex_two_taken7 [''q'', ''cur'', ''7'', ''foo1''] [''q'', ''done'', ''foo1'']) \<and>
   Finish (ex_job\<lparr>dir := [''q'', ''done'', ''foo1'']\<rparr>)
      (move ex_two_taken7 [''q'', ''cur'', ''7'', ''foo1''] [''q'', ''done'', ''foo1'']) =
   (Inl EEXIST, move ex_two_taken7 [''q'', ''cur'', ''7'', ''foo1''] [''q'', ''done'', ''foo1''])"
proof -
  have h: "fs_wf ex_two_taken7" "fs_lookup ex_two_taken7 (dir ex_job) = Some Dir"
    "Finish ex_job ex_two_taken7 = (Inr (ex_job\<lparr>dir := [''q'', ''done'', ''foo1'']\<rparr>),
      move ex_two_taken7 [''q'', ''cur'', ''7'', ''foo1''] [''q'', ''done'', ''foo1''])"
    by (simp_all add: ex_defs eval_simps Finish_def job_rename_def del: move_def)
  show ?thesis using h Queue.Finish_twice [OF h] by simp
qed

theorem Finish_vanished_witness:
  "fs_wf ex_two \<and> Finish ex_job ex_two = (Inl ENOENT, ex_two)"
proof -
  have h: "fs_wf ex_two" "fs_lookup ex_two (butlast (dir ex_job)) = Some Dir" "dir ex_job \<noteq> []"
    "fs_lookup ex_two (dir ex_job) = None"
    by (simp_all add: ex_defs eval_simps)
  show ?thesis using h Queue.Finish_vanished [OF h] by simp
qed

theorem Set_Get_witness:
  "fs_wf ex_two_taken7 \<and>
   Set ex_job ''p'' [118] [''1''] ex_two_taken7 =
     ((None, ex_two_taken7 @ [([''q'', ''cur'', ''7'', ''foo1'', ''p''], File [118])]), []) \<and>
   Get ex_job ''p'' (ex_two_taken7 @ [([''q'', ''cur'', ''7'', ''foo1'', ''p''], File [118])]) = Inr [118]"
proof -
  have h: "fs_wf ex_two_taken7"
    "Set ex_job ''p'' [118] [''1''] ex_two_taken7 =
     ((None, ex_two_taken7 @ [([''q'', ''cur'', ''7'', ''foo1'', ''p''], File [118])]), [])"
    by (simp_all add: ex_defs eval_simps)
  show ?thesis using h Props.Set_Get [OF h] by simp
qed

theorem Set_failed_keeps_witness:
  "fs_wf ex_propdir \<and> fs_lookup ex_propdir (dir ex_job) = Some Dir \<and>
   Set ex_job ''p'' [118] [''1''] ex_propdir =
     ((Some EEXIST, ex_propdir @ [([''q'', ''tmp'', ''p1''], File [118])]),
      [SetRenameFailed [''q'', ''tmp'', ''p1''] [''q'', ''cur'', ''7'', ''foo1'', ''p'']]) \<and>
   Get ex_job ''p'' (ex_propdir @ [([''q'', ''tmp'', ''p1''], File [118])]) = Get ex_job ''p'' ex_propdir"
proof -
  have h: "fs_wf ex_propdir" "fs_lookup ex_propdir (dir ex_job) = Some Dir"
    "dir ex_job \<noteq> basedir (q ex_job) @ [''tmp'']"
    "Set ex_job ''p'' [118] [''1''] ex_propdir =
     ((Some EEXIST, ex_propdir @ [([''q'', ''tmp'', ''p1''], File [118])]),
      [SetRenameFailed [''q'', ''tmp'', ''p1''] [''q'', ''cur'', ''7'', ''foo1'', ''p'']])"
    by (simp_all add: ex_defs eval_simps)
  show ?thesis using h Props.Set_failed_keeps [OF h] by simp
qed

theorem Set_atomic_witness:
  "fs_wf ex_two_taken7 \<and>
   Set_trace ex_job ''p'' [118] [''1''] ex_two_taken7 =
     [ex_two_taken7 @ [([''q'', ''tmp'', ''p1''], File [])],
      ex_two_taken7 @ [([''q'', ''tmp'', ''p1''], File [118])],
      ex_two_taken7 @ [([''q'', ''cur'', ''7'', ''foo1'', ''p''], File [118])]] \<and>
   Get ex_job ''p'' (ex_two_taken7 @ [([''q'', ''tmp'', ''p1''], File [118])]) = Inl ENOENT \<and>
   Get ex_job ''p'' ex_two_taken7 = Inl ENOENT"
proof -
  let ?s = "ex_two_taken7 @ [([''q'', ''tmp'', ''p1''], File [118])]"
  have h: "fs_wf ex_two_taken7" "fs_lookup ex_two_taken7 (dir ex_job) = Some Dir"
    "dir ex_job \<noteq> basedir (q ex_job) @ [''tmp'']"
    "?s \<in> set (Set_trace ex_job ''p'' [118] [''1''] ex_two_taken7)"
    by (simp_all add: ex_defs eval_simps)
  have t: "Set_trace ex_job ''p'' [118] [''1''] ex_two_taken7 =
     [ex_two_taken7 @ [([''q'', ''tmp'', ''p1''], File [])], ?s,
      ex_two_taken7 @ [([''q'', ''cur'', ''7'', ''foo1'', ''p''], File [118])]]"
    and g: "Get ex_job ''p'' ex_two_taken7 = Inl ENOENT" "Get ex_job ''p'' ?s = Inl ENOENT"
    by (simp_all add: ex_defs eval_simps)
  from Props.Set_atomic [OF h] g have "Get ex_job ''p'' ?s = Get ex_job ''p'' ex_two_taken7 \<or> Get ex_job ''p'' ?s = Inr [118]"
    by simp
  then show ?thesis using h(1) t g by simp
qed

theorem OpenQueue_idempotent_witness:
  "OpenQueue 7 [''q''] ex_opened = (Inr ex_q, ex_opened) \<and>
   OpenQueue 7 [''q''] [([], Dir), ([''q''], Dir)] = (Inr ex_q, ex_opened)"
proof -
  have h: "OpenQueue 7 [''q''] [([], Dir), ([''q''], Dir)] = (Inr ex_q, ex_opened)"
    by (simp add: ex_defs eval_simps)
  show ?thesis using Queue.OpenQueue_idempotent [OF h] h by simp
qed

theorem OpenQueue_subdirs_witness:
  "fs_wf [([], Dir), ([''q''], Dir)] \<and>
   OpenQueue 7 [''q''] [([], Dir), ([''q''], Dir)] = (Inr ex_q, ex_opened) \<and>
   fs_lookup ex_opened [''q'', ''cur'', ''7''] = Some Dir \<and> fs_wf ex_opened"
proof -
  have h: "fs_wf [([], Dir), ([''q''], Dir)]"
    "\<forall>s \<in> set (queue_subdirs 7). fs_lookup [([], Dir), ([''q''], Dir)] ([''q''] @ s) \<noteq> None \<longrightarrow>
       fs_lookup [([], Dir), ([''q''], Dir)] ([''q''] @ s) = Some Dir"
    "OpenQueue 7 [''q''] [([], Dir), ([''q''], Dir)] = (Inr ex_q, ex_opened)"
    by (simp_all add: ex_defs eval_simps)
  have "mycur 7 \<in> set (queue_subdirs 7)" by (simp add: queue_subdirs_def)
  with Queue.OpenQueue_subdirs [OF h] have "fs_lookup ex_opened ([''q''] @ mycur 7) = Some Dir \<and> fs_wf ex_opened"
    by simp
  then show ?thesis using h by (simp add: mycur_def Itoa_def nat_digits.simps digit_char_def)
qed

theorem OpenQueue_missing_base_witness:
  "fs_wf ex_empty \<and> OpenQueue 7 [''q''] ex_empty = (Inl ENOENT, ex_empty)"
proof -
  have h: "fs_wf ex_empty" "fs_lookup ex_empty (butlast [''q'']) = Some Dir" "fs_lookup ex_empty [''q''] = None"
    by (simp_all add: ex_defs eval_simps)
  show ?thesis using h Queue.OpenQueue_missing_base [OF h] by simp
qed

theorem rescue_touches_only_dead_slots_witness:
  "RescueDeadJobs ex_q ex_ps ex_zero =
     ((None, ex_zero), [ProcessGone 42, CouldNotReadWorker 42 [''q'', ''cur'', ''42''],
                        RmdirFailed [''q'', ''cur'', ''42''] ENOENT]) \<and>
   fs_lookup ex_zero (basedir ex_q @ [''cur'', ''042''] @ [''foo'']) = Some Dir"
proof -
  have h1: "RescueDeadJobs ex_q ex_ps ex_zero =
     ((None, ex_zero), [ProcessGone 42, CouldNotReadWorker 42 [''q'', ''cur'', ''42''],
                        RmdirFailed [''q'', ''cur'', ''42''] ENOENT])"
    by (simp add: ex_defs eval_simps)
  have h2: "\<forall>pid. Atoi ''042'' = Some pid \<longrightarrow> ex_ps pid = Some ESRCH \<longrightarrow> Itoa pid \<noteq> ''042''"
    by (simp add: ex_defs eval_simps)
  have "fs_lookup ex_zero (basedir ex_q @ [''cur'', ''042''] @ [''foo'']) = Some Dir"
    by (simp add: ex_defs eval_simps)
  with h1 Rescue.rescue_touches_only_dead_slots [OF h1 h2, of "[''foo'']"] show ?thesis by simp
qed

theorem rescue_dead_slots_witness:
  "fs_wf ex_dead2 \<and>
   RescueDeadJobs ex_q ex_ps ex_dead2 =
     ((None, ex_rescued2), [ProcessGone 5, Rescheduled ''foo'' 5, ProcessGone 6, Rescheduled ''bar'' 6]) \<and>
   fs_lookup ex_rescued2 (getWorkerDir ex_q 5) = None \<and> fs_lookup ex_rescued2 (getWorkerDir ex_q 6) = None \<and>
   fs_lookup ex_rescued2 (getNewDir ex_q @ [''foo'']) = Some Dir \<and>
   fs_lookup ex_rescued2 (getNewDir ex_q @ [''bar'']) = Some Dir"
proof -
  have ch: "n \<in> set (children ex_dead2 (getWorkerDir ex_q p)) \<longleftrightarrow>
      (Itoa p = ''5'' \<and> n = ''foo'') \<or> (Itoa p = ''6'' \<and> n = ''bar'')" for p n
    by (auto simp: children_iff worker_dir_child getCurDir_def ex_dead2_def ex_opened_def ex_q_def fs_lookup_def)
  have h: "fs_wf ex_dead2" "fs_lookup ex_dead2 (getCurDir ex_q) = Some Dir"
    "fs_lookup ex_dead2 (getNewDir ex_q) = Some Dir"
    "RescueDeadJobs ex_q ex_ps ex_dead2 =
       ((None, ex_rescued2), [ProcessGone 5, Rescheduled ''foo'' 5, ProcessGone 6, Rescheduled ''bar'' 6])"
    by (simp_all add: ex_defs eval_simps)
  have fresh: "\<forall>p n. ex_ps p = Some ESRCH \<longrightarrow> - (2 ^ 63) \<le> p \<longrightarrow> p < 2 ^ 63 \<longrightarrow>
      n \<in> set (children ex_dead2 (getWorkerDir ex_q p)) \<longrightarrow> fs_lookup ex_dead2 (getNewDir ex_q @ [n]) = None"
    by (simp add: ex_defs eval_simps)
  have dist: "\<forall>p w n. ex_ps p = Some ESRCH \<longrightarrow> ex_ps w = Some ESRCH \<longrightarrow>
      - (2 ^ 63) \<le> p \<longrightarrow> p < 2 ^ 63 \<longrightarrow> - (2 ^ 63) \<le> w \<longrightarrow> w < 2 ^ 63 \<longrightarrow>
      n \<in> set (children ex_dead2 (getWorkerDir ex_q p)) \<longrightarrow>
      n \<in> set (children ex_dead2 (getWorkerDir ex_q w)) \<longrightarrow> p = w"
  proof (intro allI impI)
    fix p w n
    assume "ex_ps p = Some ESRCH" "ex_ps w = Some ESRCH"
      and r: "- (2 ^ 63) \<le> p" "p < 2 ^ 63" "- (2 ^ 63) \<le> w" "w < 2 ^ 63"
      and np: "n \<in> set (children ex_dead2 (getWorkerDir ex_q p))"
      and nw: "n \<in> set (children ex_dead2 (getWorkerDir ex_q w))"
    have "Itoa p = Itoa w" using np nw unfolding ch by auto
    with r show "p = w" by (rule Itoa_inj_on_int64)
  qed
  have R: "- (2 ^ 63) \<le> (5::int)" "(5::int) < 2 ^ 63" "- (2 ^ 63) \<le> (6::int)" "(6::int) < 2 ^ 63"
    "ex_ps 5 = Some ESRCH" "ex_ps 6 = Some ESRCH" by (simp_all add: ex_ps_def)
  have c: "''foo'' \<in> set (children ex_dead2 (getWorkerDir ex_q 5))"
    "''bar'' \<in> set (children ex_dead2 (getWorkerDir ex_q 6))"
    unfolding ch by (simp_all add: Itoa_def nat_digits.simps digit_char_def)
  have l: "fs_lookup ex_dead2 (getWorkerDir ex_q 5 @ [''foo'']) = Some Dir"
    "fs_lookup ex_dead2 (getWorkerDir ex_q 6 @ [''bar'']) = Some Dir"
    by (simp_all add: ex_defs eval_simps)
  from Rescue.rescue_dead_slots [OF h(1-3) fresh dist h(4)] R c l
  show ?thesis using h by fastforce
qed

theorem at_most_one_owner_witness:
  "fs_wf ex_two \<and>
   Take 1 7 ex_q (\<lambda>_. 0) ex_two =
     Some (Inr (Some \<lparr>Basename = ''foo1'', dir = [''q'', ''cur'', ''7'', ''foo1''], q = ex_q\<rparr>), ex_two_taken7) \<and>
   Take 1 8 ex_q (\<lambda>_. 0) ex_two_taken7 =
     Some (Inr (Some \<lparr>Basename = ''bar2'', dir = [''q'', ''cur'', ''8'', ''bar2''], q = ex_q\<rparr>), ex_two_taken8) \<and>
   ''bar2'' \<noteq> ''foo1''"
proof -
  have h1: "fs_wf ex_two" by (simp add: ex_defs eval_simps)
  have h2: "Take 1 7 ex_q (\<lambda>_. 0) ex_two =
     Some (Inr (Some \<lparr>Basename = ''foo1'', dir = [''q'', ''cur'', ''7'', ''foo1''], q = ex_q\<rparr>), ex_two_taken7)"
    by (simp add: ex_defs eval_simps)
  have h3: "Take 1 8 ex_q (\<lambda>_. 0) ex_two_taken7 =
     Some (Inr (Some \<lparr>Basename = ''bar2'', dir = [''q'', ''cur'', ''8'', ''bar2''], q = ex_q\<rparr>), ex_two_taken8)"
    by (simp add: ex_defs eval_simps)
  from at_most_one_owner [OF h1 h2 h3] h1 h2 h3 show ?thesis by simp
qed

theorem Take_empty_witness:
  "fs_wf ex_opened \<and> fs_lookup ex_opened (basedir ex_q @ [''new'']) = Some Dir \<and>
   children ex_opened (basedir ex_q @ [''new'']) = [] \<and>
   Take (Suc 0) 7 ex_q (\<lambda>_. 0) ex_opened = Some (Inr None, ex_opened)"
proof -
  have h: "fs_wf ex_opened" "fs_lookup ex_opened (basedir ex_q @ [''new'']) = Some Dir"
    "children ex_opened (basedir ex_q @ [''new'']) = []"
    by (simp_all add: ex_defs eval_simps)
  show ?thesis using h Take_empty [OF h] by simp
qed

theorem take_livelock_witness:
  "\<not> (take_step 7 ex_q)\<^sup>*\<^sup>* (TStart, ex_noslot) (TReturned (Inr None), ex_noslot) \<and>
   os_rename ex_noslot [''q'', ''new'', ''foo1''] [''q'', ''cur'', ''7'', ''foo1''] = Inl ENOENT"
proof -
  have h: "fs_wf ex_noslot" "fs_lookup ex_noslot (basedir ex_q @ [''new'']) = Some Dir"
    "children ex_noslot (basedir ex_q @ [''new'']) \<noteq> []"
    "fs_lookup ex_noslot (basedir ex_q @ [''cur'']) = Some Dir"
    "fs_lookup ex_noslot (basedir ex_q @ mycur 7) = None"
    "children ex_noslot (basedir ex_q @ [''new'']) = [''foo1'']"
    by (simp_all add: ex_defs eval_simps)
  have "\<not> (take_step 7 ex_q)\<^sup>*\<^sup>* (TStart, ex_noslot) (TReturned (Inr None), ex_noslot)"
    using Concurrent.take_livelock [OF h(1-5)] by blast
  moreover have "os_rename ex_noslot [''q'', ''new'', ''foo1''] [''q'', ''cur'', ''7'', ''foo1''] = Inl ENOENT"
    using Concurrent.take_livelock [OF h(1-5) rtranclp.rtrancl_refl] h(6)
    by (simp add: ex_defs mycur_def Itoa_def nat_digits.simps digit_char_def)
  ultimately show ?thesis ..
qed

theorem qsteps_refine_witness:
  "fs_wf ex_race_done \<and> ajstep\<^sup>*\<^sup>* {#(''foo1'', Submittable)#} {#(''foo1'', Completed)#}"
  using Jobs.qsteps_refine [OF conjunct2 [OF race_qsteps] fs_wf_ex_race] race_jobs by simp

theorem jobs_never_lost_witness:
  "{#''foo1''#} \<subseteq># image_mset fst (jobs ex_q ex_race_done)"
  using Jobs.jobs_never_lost [OF conjunct2 [OF race_qsteps] fs_wf_ex_race] race_jobs by simp

theorem owned_only_from_new_witness:
  "(''foo1'', Submittable) \<in># jobs ex_q ex_race \<and> (''foo1'', Submittable) \<notin># jobs ex_q ex_race_taken"
  using Jobs.owned_only_from_new [OF conjunct1 [OF race_qsteps] fs_wf_ex_race, of "''foo1''" "''7''"] race_jobs
  by simp

theorem handles_wellformed_witness:
  "handle_ok ex_q ex_job7 \<and> handle_ok ex_q (ex_job7\<lparr>dir := [''q'', ''done'', ''foo1'']\<rparr>)"
proof -
  have t: "Take 1 7 ex_q (\<lambda>_. 0) ex_race = Some (Inr (Some ex_job7), ex_race_taken)"
    by (simp add: race_defs ex_defs eval_simps)
  have h: "handle_ok ex_q ex_job7"
    using conjunct1 [OF conjunct2 [OF Jobs.handles_wellformed [where qu = ex_q and j = ex_job7 and n = 1 and pid = 7 and rnd = "\<lambda>_. 0" and fs = ex_race and fs' = ex_race_taken]]] t
    by simp
  have "handle_ok ex_q (ex_job7\<lparr>dir := [''q'', ''done'', ''foo1'']\<rparr>)"
    using conjunct1 [OF conjunct2 [OF conjunct2 [OF conjunct2 [OF Jobs.handles_wellformed
      [where qu = ex_q and fs = ex_race_taken and j = ex_job7 and fs' = ex_race_done and j' = "ex_job7\<lparr>dir := [''q'', ''done'', ''foo1'']\<rparr>"]]]]] h race_finish
    by simp
  with h show ?thesis ..
qed

theorem take_progress_witness:
  "\<exists>fs'. qstep ex_q ex_ps ex_race fs' \<and> jobs ex_q fs' = {#(''foo1'', Owned ''7'')#}"
proof -
  have h: "fs_lookup ex_race (getWorkerDir ex_q 7) = Some Dir" "fs_lookup ex_race (getWorkerDir ex_q 7 @ [''foo1'']) = None"
    "Itoa 7 = ''7''"
    by (simp_all add: race_defs ex_defs eval_simps)
  from Jobs.take_progress [OF fs_wf_ex_race _ h(1,2), of ex_ps] race_jobs h(3) show ?thesis by simp
qed

theorem take_race_loser_retries_witness:
  "take_step 8 ex_q (TListed [''foo1''], ex_race_taken) (TStart, ex_race_taken) \<and>
   \<not> take_step 8 ex_q (TListed [''foo1''], ex_race_taken) (TReturned (Inl ENOENT), ex_race_taken)"
proof -
  have h: "fs_wf ex_race_taken" "fs_lookup ex_race_taken (basedir ex_q @ [''new'']) = Some Dir"
    "[''foo1''] \<noteq> []" "\<forall>x \<in> set [''foo1'']. fs_lookup ex_race_taken (basedir ex_q @ [''new'', x]) = None"
    by (simp_all add: race_defs ex_defs eval_simps)
  have "take_step 8 ex_q (TListed [''foo1''], ex_race_taken) (TStart, ex_race_taken)"
    by (rule take_step.retry [of "''foo1''" _ _ _ _ ENOENT]) (simp_all add: race_defs ex_defs eval_simps)
  moreover have "\<not> take_step 8 ex_q (TListed [''foo1''], ex_race_taken) (TReturned (Inl ENOENT), ex_race_taken)"
    using Concurrent.take_race_loser_retries [OF h] by blast
  ultimately show ?thesis ..
qed

theorem OpenQueue_accepts_file_witness:
  "OpenQueue 7 [''q''] ex_newfile = (Inr ex_q, ex_newfile_opened) \<and>
   fs_lookup ex_newfile_opened [''q'', ''new''] = Some (File []) \<and>
   Take 1 7 ex_q (\<lambda>_. 0) ex_newfile_opened = Some (Inl ENOTDIR, ex_newfile_opened)"
proof -
  have h: "fs_wf ex_newfile" "fs_lookup ex_newfile [''q''] = Some Dir"
    "fs_lookup ex_newfile ([''q''] @ [''new'']) = Some (File [])"
    "fs_lookup ex_newfile ([''q''] @ [''cur'']) \<noteq> None \<longrightarrow> fs_lookup ex_newfile ([''q''] @ [''cur'']) = Some Dir"
    by (simp_all add: ex_defs eval_simps)
  have o: "OpenQueue 7 [''q''] ex_newfile = (Inr ex_q, ex_newfile_opened)" by (simp add: ex_defs eval_simps)
  from Queue.OpenQueue_accepts_file [OF h, of 7 0 "\<lambda>_. 0"] o show ?thesis by simp
qed

theorem Submit_any_state_witness:
  "Submit (ex_job7\<lparr>dir := [''q'', ''done'', ''foo1'']\<rparr>) ex_race_done =
     (Inr (ex_job7\<lparr>dir := [''q'', ''new'', ''foo1'']\<rparr>), ex_race) \<and>
   jobs ex_q ex_race = {#(''foo1'', Submittable)#}"
proof -
  let ?j = "ex_job7\<lparr>dir := [''q'', ''done'', ''foo1'']\<rparr>"
  have h: "fs_wf ex_race_done" "q ?j = ex_q" "dir ?j = jpath ex_q (Basename ?j) Completed" "Completed \<noteq> Submittable"
    "fs_lookup ex_race_done (dir ?j) = Some Dir" "fs_lookup ex_race_done (getNewDir ex_q) = Some Dir"
    "fs_lookup ex_race_done (getNewDir ex_q @ [Basename ?j]) = None"
    by (simp_all add: race_defs ex_defs eval_simps)
  have s: "Submit ?j ex_race_done = (Inr (ex_job7\<lparr>dir := [''q'', ''new'', ''foo1'']\<rparr>), ex_race)"
    by (simp add: Submit_def job_rename_def race_defs ex_defs eval_simps)
  from Jobs.Submit_any_state [OF h, of ex_ps] s race_jobs show ?thesis
    by (auto simp: ex_job7_def getNewDir_def ex_defs)
qed

theorem Set_failed_leaves_temp_witness:
  "Set ex_job ''p'' [118] [''1''] ex_propdir =
     ((Some EEXIST, ex_propdir @ [([''q'', ''tmp'', ''p1''], File [118])]),
      [SetRenameFailed [''q'', ''tmp'', ''p1''] [''q'', ''cur'', ''7'', ''foo1'', ''p'']]) \<and>
   fs_lookup ex_propdir [''q'', ''tmp'', ''p1''] = None"
proof -
  have s: "Set ex_job ''p'' [118] [''1''] ex_propdir =
     ((Some EEXIST, ex_propdir @ [([''q'', ''tmp'', ''p1''], File [118])]),
      [SetRenameFailed [''q'', ''tmp'', ''p1''] [''q'', ''cur'', ''7'', ''foo1'', ''p'']])"
    by (simp add: ex_defs eval_simps)
  from Props.Set_failed_leaves_temp [OF s] s show ?thesis by (simp add: ex_defs)
qed


theorem rescue_logs_entries_witness:
  "NotAPid ''abc'' \<in> set (snd (RescueDeadJobs ex_q ex_ps2 ex_sweep)) \<and>
   KillFailed 1 EPERM \<in> set (snd (RescueDeadJobs ex_q ex_ps2 ex_sweep)) \<and>
   fst (fst (RescueDeadJobs ex_q ex_ps2 ex_sweep)) = None"
proof -
  have h: "fs_wf ex_sweep" "fs_lookup ex_sweep (getCurDir ex_q) = Some Dir"
    "''abc'' \<in> set (children ex_sweep (getCurDir ex_q))" "''1'' \<in> set (children ex_sweep (getCurDir ex_q))"
    "Atoi ''abc'' = None" "Atoi ''1'' = Some 1" "ex_ps2 1 = Some EPERM"
    by (simp_all add: ex_defs ex_sweep_def ex_ps2_def eval_simps)
  obtain err fs' lg where r: "RescueDeadJobs ex_q ex_ps2 ex_sweep = ((err, fs'), lg)" by (metis prod.exhaust)
  from Rescue.rescue_logs_entries [OF h(1,2,3) r] Rescue.rescue_logs_entries [OF h(1,2,4) r] h(5-7) r
  show ?thesis by simp
qed


end
